theory Spec2Isabelle
  imports Main "HOL-Library.AList"
begin

section \<open>ChangeNotifier: helpers/imap-notifier.js\<close>

subsection \<open>Documents and stores\<close>

text \<open>
  Object ids are natural numbers.  A mailbox document carries its id and its
  \<open>modifyIndex\<close>; a message document its id, the owning mailbox and its
  \<open>modseq\<close>.  A journal entry is the object handed to \<open>addEntries\<close>: each of
  its four fields may be absent (\<open>None\<close>).
\<close>

record mailbox =
  mb_id :: nat
  modifyIndex :: nat

record message =
  msg_id :: nat
  msg_mailbox :: nat
  msg_modseq :: nat

record entry =
  e_modseq :: "nat option"
  e_message :: "nat option"
  e_created :: "nat option"
  e_mailbox :: "nat option"

text \<open>
  The three collections touched by \<open>addEntries\<close>.  \<open>Messages\<close> and
  \<open>Journals\<close> are lists (document order of the table), \<open>Mailboxes\<close> is
  keyed by id.  \<open>nlog\<close> collects what \<open>logger.fatal\<close> receives.
\<close>

datatype store_error = FindFailed | UpdateFailed nat | CreateFailed

record store =
  mailboxes :: "nat \<rightharpoonup> mailbox"
  messages :: "message list"
  journals :: "entry list"
  nlog :: "store_error list"

text \<open>
  The collaborators' failures that \<open>addEntries\<close> has a branch for:
  \<open>Messages.find\<close> and \<open>Messages.findByIdAndUpdate\<close> run inside the
  \<open>try\<close> block, \<open>Journals.create\<close> runs outside of it.
\<close>

record faults =
  find_throws :: bool
  update_throws :: "nat \<Rightarrow> bool"
  create_throws :: bool

text \<open>The arguments of \<open>addEntries\<close> as far as the function inspects them.\<close>

record ctx =
  session_db_ok :: bool
  instance_wsp_ok :: bool
  password_is_string :: bool

datatype mailbox_ref = NoRef | RefId nat | RefDoc mailbox

datatype entries_arg = Falsy | Arr "entry list" | Obj entry

datatype error =
    DatabaseMissing
  | WebSocketAsPromisedMissing
  | PasswordMissing
  | NoSuchMailbox
  | QueryEmpty
  | StoreError store_error

datatype ret = RetFalse | RetCount nat

subsection \<open>addEntries\<close>

text \<open>JavaScript truthiness of an optional number: absent and \<open>0\<close> are falsy.\<close>

definition truthy :: "nat option \<Rightarrow> bool" where
  "truthy v = (case v of None \<Rightarrow> False | Some n \<Rightarrow> n \<noteq> 0)"

text \<open>\<open>entries.filter((entry) => !entry.modseq && entry.message).map((entry) => entry.message)\<close>\<close>

definition updated :: "entry list \<Rightarrow> nat list" where
  "updated es = List.map_filter (\<lambda>e. if \<not> truthy (e_modseq e) then e_message e else None) es"

text \<open>The query \<open>{ _id: ... }\<close> built from the mailbox argument.\<close>

fun query_id :: "mailbox_ref \<Rightarrow> nat option" where
  "query_id NoRef = None"
| "query_id (RefId i) = Some i"
| "query_id (RefDoc d) = Some (mb_id d)"

fun passed_doc :: "mailbox_ref \<Rightarrow> mailbox option" where
  "passed_doc (RefDoc d) = Some d"
| "passed_doc _ = None"

text \<open>
  \<open>Mailboxes.findOneAndUpdate(query, {$inc: {modifyIndex: 1}}, {returnDocument: 'after'})\<close>:
  the document after the increment, or nothing when no mailbox matches.
\<close>

definition findOneAndUpdate_inc :: "nat \<Rightarrow> store \<Rightarrow> mailbox option \<times> store" where
  "findOneAndUpdate_inc i s =
     (case mailboxes s i of
        None \<Rightarrow> (None, s)
      | Some mb \<Rightarrow>
          (let mb' = mb\<lparr>modifyIndex := modifyIndex mb + 1\<rparr>
           in (Some mb', s\<lparr>mailboxes := (mailboxes s)(i \<mapsto> mb')\<rparr>)))"

definition findOne :: "nat \<Rightarrow> store \<Rightarrow> mailbox option" where
  "findOne i s = mailboxes s i"

text \<open>The stamping loop over the entries (\<open>entry.x = entry.x || x\<close>).\<close>

definition stamp :: "nat \<Rightarrow> nat \<Rightarrow> nat \<Rightarrow> entry \<Rightarrow> entry" where
  "stamp modseq created mbid e =
     e\<lparr> e_modseq := Some (if truthy (e_modseq e) then the (e_modseq e) else modseq),
        e_created := Some (case e_created e of Some c \<Rightarrow> c | None \<Rightarrow> created),
        e_mailbox := Some (case e_mailbox e of Some m \<Rightarrow> m | None \<Rightarrow> mbid) \<rparr>"

text \<open>\<open>Messages.find({_id: {$in: updated}, mailbox: mailbox._id})\<close>\<close>

definition find_messages :: "nat list \<Rightarrow> nat \<Rightarrow> store \<Rightarrow> message list" where
  "find_messages upd mbid s =
     filter (\<lambda>m. msg_id m \<in> set upd \<and> msg_mailbox m = mbid) (messages s)"

text \<open>\<open>Messages.findByIdAndUpdate(id, {$set: {modseq}})\<close>: the first document with that id.\<close>

fun set_modseq :: "nat \<Rightarrow> nat \<Rightarrow> message list \<Rightarrow> message list" where
  "set_modseq i v [] = []"
| "set_modseq i v (m # ms) =
     (if msg_id m = i then m\<lparr>msg_modseq := v\<rparr> # ms else m # set_modseq i v ms)"

text \<open>
  The loop \<open>for (const message of messages) if (message.modseq < modseq) await
  Messages.findByIdAndUpdate(...)\<close>.  A throwing update leaves the loop; the
  error is what the \<open>catch\<close> logs.
\<close>

fun raise_modseqs :: "faults \<Rightarrow> nat \<Rightarrow> message list \<Rightarrow> store \<Rightarrow> store" where
  "raise_modseqs f modseq [] s = s"
| "raise_modseqs f modseq (m # found) s =
     (if msg_modseq m < modseq then
        (if update_throws f (msg_id m)
         then s\<lparr>nlog := nlog s @ [UpdateFailed (msg_id m)]\<rparr>
         else raise_modseqs f modseq found
                (s\<lparr>messages := set_modseq (msg_id m) modseq (messages s)\<rparr>))
      else raise_modseqs f modseq found s)"

definition update_messages :: "faults \<Rightarrow> nat \<Rightarrow> nat list \<Rightarrow> nat \<Rightarrow> store \<Rightarrow> store" where
  "update_messages f modseq upd mbid s =
     (if find_throws f then s\<lparr>nlog := nlog s @ [FindFailed]\<rparr>
      else raise_modseqs f modseq (find_messages upd mbid s) s)"

text \<open>
  \<open>addEntries(instance, session, mailboxId, entries)\<close>.  The result pairs what
  the caller gets (an exception, \<open>false\<close>, or the number of entries) with
  the store after the call.  \<open>now\<close> is the value of \<open>new Date()\<close>.
\<close>

definition addEntries_array ::
  "faults \<Rightarrow> nat \<Rightarrow> mailbox_ref \<Rightarrow> entry list \<Rightarrow> store \<Rightarrow> (error + ret) \<times> store" where
  "addEntries_array f now mailboxId es s =
     (let upd = updated es in
      if mailboxId = NoRef then (Inl NoSuchMailbox, s)
      else case query_id mailboxId of
        None \<Rightarrow> (Inl QueryEmpty, s)
      | Some qid \<Rightarrow>
         (let (mb1, s1) = (if upd \<noteq> [] then findOneAndUpdate_inc qid s
                           else (passed_doc mailboxId, s));
              mb2 = (case mb1 of None \<Rightarrow> findOne qid s1 | Some d \<Rightarrow> Some d)
          in case mb2 of
               None \<Rightarrow> (Inl NoSuchMailbox, s1)
             | Some mb \<Rightarrow>
                (let modseq = modifyIndex mb;
                     es' = map (stamp modseq now (mb_id mb)) es;
                     s2 = (if upd \<noteq> [] then update_messages f modseq upd (mb_id mb) s1 else s1)
                 in if create_throws f then (Inl (StoreError CreateFailed), s2)
                    else (Inr (RetCount (length es')), s2\<lparr>journals := journals s2 @ es'\<rparr>))))"

definition addEntries ::
  "faults \<Rightarrow> nat \<Rightarrow> ctx \<Rightarrow> mailbox_ref \<Rightarrow> entries_arg \<Rightarrow> store \<Rightarrow> (error + ret) \<times> store" where
  "addEntries f now c mailboxId entries s =
     (if \<not> session_db_ok c then (Inl DatabaseMissing, s)
      else if \<not> instance_wsp_ok c then (Inl WebSocketAsPromisedMissing, s)
      else if \<not> password_is_string c then (Inl PasswordMissing, s)
      else case entries of
             Obj e \<Rightarrow> addEntries_array f now mailboxId [e] s
           | Falsy \<Rightarrow> (Inr RetFalse, s)
           | Arr es \<Rightarrow> (if es = [] then (Inr RetFalse, s)
                        else addEntries_array f now mailboxId es s))"

subsection \<open>Auxiliary notions for the properties of addEntries\<close>

text \<open>
  The entries argument as the list the function works on, the modseq a
  minting call will read back, and a message list in which the documents
  selected by \<open>D\<close> that are behind \<open>v\<close> have been raised to \<open>v\<close>.
\<close>

definition as_list :: "entries_arg \<Rightarrow> entry list" where
  "as_list a = (case a of Falsy \<Rightarrow> [] | Arr es \<Rightarrow> es | Obj e \<Rightarrow> [e])"

definition minted :: "mailbox_ref \<Rightarrow> store \<Rightarrow> nat option" where
  "minted r s = (case query_id r of None \<Rightarrow> None
     | Some i \<Rightarrow> map_option (\<lambda>mb. modifyIndex mb + 1) (mailboxes s i))"

definition raised :: "(message \<Rightarrow> bool) \<Rightarrow> nat \<Rightarrow> message list \<Rightarrow> message list" where
  "raised D v orig = map (\<lambda>m. if D m \<and> msg_modseq m < v then m\<lparr>msg_modseq := v\<rparr> else m) orig"

lemma set_modseq_raised:
  assumes "distinct (map msg_id orig)" "m \<in> set orig" "msg_modseq m < v"
  shows "set_modseq (msg_id m) v (raised D v orig) = raised (\<lambda>x. D x \<or> x = m) v orig"
  using assms
proof (induction orig)
  case Nil then show ?case by simp
next
  case (Cons a orig)
  show ?case
  proof (cases "msg_id a = msg_id m")
    case True
    with Cons.prems have om: "a = m" by (auto simp: image_iff)
    have notin: "\<forall>x\<in>set orig. x \<noteq> m" using Cons.prems om by (auto simp: image_iff)
    have "raised (\<lambda>x. D x \<or> x = m) v orig = raised D v orig"
      using notin by (auto simp: raised_def)
    then show ?thesis using om Cons.prems by (simp add: raised_def)
  next
    case False
    then have "m \<in> set orig" using Cons.prems by auto
    then show ?thesis using Cons False by (auto simp: raised_def)
  qed
qed

lemma raise_modseqs_raised:
  assumes "distinct (map msg_id orig)" "set found \<subseteq> set orig" "messages s = raised D v orig"
  shows "\<exists>D'. (\<forall>x. D x \<longrightarrow> D' x) \<and> (\<forall>x. D' x \<longrightarrow> D x \<or> x \<in> set found)
           \<and> ((\<forall>x\<in>set found. \<not> update_throws f (msg_id x)) \<longrightarrow> (\<forall>x. D' x = (D x \<or> x \<in> set found)))
           \<and> messages (raise_modseqs f v found s) = raised D' v orig
           \<and> mailboxes (raise_modseqs f v found s) = mailboxes s
           \<and> journals (raise_modseqs f v found s) = journals s"
  using assms
proof (induction found arbitrary: s D)
  case Nil
  then show ?case by (intro exI[of _ D]) simp
next
  case (Cons m found)
  show ?case
  proof (cases "msg_modseq m < v")
    case lt: True
    show ?thesis
    proof (cases "update_throws f (msg_id m)")
      case True
      then show ?thesis using lt Cons.prems by (intro exI[of _ D]) simp
    next
      case False
      let ?s = "s\<lparr>messages := set_modseq (msg_id m) v (messages s)\<rparr>"
      have m: "m \<in> set orig" using Cons.prems by simp
      have "messages ?s = raised (\<lambda>x. D x \<or> x = m) v orig"
        using set_modseq_raised[OF Cons.prems(1) m lt] Cons.prems(3) by simp
      from Cons.IH[OF Cons.prems(1) _ this] Cons.prems(2)
      obtain D' where D': "\<forall>x. D x \<or> x = m \<longrightarrow> D' x" "\<forall>x. D' x \<longrightarrow> (D x \<or> x = m) \<or> x \<in> set found"
        "(\<forall>x\<in>set found. \<not> update_throws f (msg_id x)) \<longrightarrow> (\<forall>x. D' x = ((D x \<or> x = m) \<or> x \<in> set found))"
        "messages (raise_modseqs f v found ?s) = raised D' v orig"
        "mailboxes (raise_modseqs f v found ?s) = mailboxes ?s"
        "journals (raise_modseqs f v found ?s) = journals ?s" by auto
      show ?thesis using lt False D' by (intro exI[of _ D']) auto
    qed
  next
    case ge: False
    from Cons.IH[OF Cons.prems(1) _ Cons.prems(3)] Cons.prems(2)
    obtain D' where D': "\<forall>x. D x \<longrightarrow> D' x" "\<forall>x. D' x \<longrightarrow> D x \<or> x \<in> set found"
        "(\<forall>x\<in>set found. \<not> update_throws f (msg_id x)) \<longrightarrow> (\<forall>x. D' x = (D x \<or> x \<in> set found))"
        "messages (raise_modseqs f v found s) = raised D' v orig"
        "mailboxes (raise_modseqs f v found s) = mailboxes s"
        "journals (raise_modseqs f v found s) = journals s" by auto
    let ?D = "\<lambda>x. D' x \<or> x = m"
    have "raised ?D v orig = raised D' v orig" using ge by (auto simp: raised_def)
    then show ?thesis using ge D' by (intro exI[of _ ?D]) auto
  qed
qed


lemma update_messages_raised:
  assumes "distinct (map msg_id (messages s))"
  shows "\<exists>D. (\<forall>x. D x \<longrightarrow> msg_id x \<in> set upd \<and> msg_mailbox x = b)
           \<and> (\<not> find_throws f \<and> (\<forall>i. \<not> update_throws f i) \<longrightarrow>
                 (\<forall>x. D x = (x \<in> set (messages s) \<and> msg_id x \<in> set upd \<and> msg_mailbox x = b)))
           \<and> messages (update_messages f v upd b s) = raised D v (messages s)
           \<and> mailboxes (update_messages f v upd b s) = mailboxes s
           \<and> journals (update_messages f v upd b s) = journals s"
proof (cases "find_throws f")
  case True
  have r: "raised (\<lambda>x. False) v (messages s) = messages s" by (simp add: raised_def)
  have um: "update_messages f v upd b s = s\<lparr>nlog := nlog s @ [FindFailed]\<rparr>"
    using True by (simp add: update_messages_def)
  show ?thesis
    apply (rule exI[of _ "\<lambda>x. False"])
    using True by (simp add: um r)
next
  case False
  let ?found = "find_messages upd b s"
  have sub: "set ?found \<subseteq> set (messages s)" by (auto simp: find_messages_def)
  have r0: "messages s = raised (\<lambda>x. False) v (messages s)" by (simp add: raised_def)
  from raise_modseqs_raised[OF assms sub r0, of f]
  obtain D' where D': "\<forall>x. D' x \<longrightarrow> x \<in> set ?found"
    "(\<forall>x\<in>set ?found. \<not> update_throws f (msg_id x)) \<longrightarrow> (\<forall>x. D' x = (x \<in> set ?found))"
    "messages (raise_modseqs f v ?found s) = raised D' v (messages s)"
    "mailboxes (raise_modseqs f v ?found s) = mailboxes s"
    "journals (raise_modseqs f v ?found s) = journals s" by auto
  have um: "update_messages f v upd b s = raise_modseqs f v ?found s"
    using False by (simp add: update_messages_def)
  have c1: "\<forall>x. D' x \<longrightarrow> msg_id x \<in> set upd \<and> msg_mailbox x = b"
    using D'(1) by (simp add: find_messages_def)
  have c2: "\<not> find_throws f \<and> (\<forall>i. \<not> update_throws f i) \<longrightarrow>
                 (\<forall>x. D' x = (x \<in> set (messages s) \<and> msg_id x \<in> set upd \<and> msg_mailbox x = b))"
  proof
    assume "\<not> find_throws f \<and> (\<forall>i. \<not> update_throws f i)"
    then have "\<forall>x. D' x = (x \<in> set ?found)" using D'(2) by simp
    then show "\<forall>x. D' x = (x \<in> set (messages s) \<and> msg_id x \<in> set upd \<and> msg_mailbox x = b)"
      by (simp add: find_messages_def)
  qed
  have c3: "messages (update_messages f v upd b s) = raised D' v (messages s)"
     "mailboxes (update_messages f v upd b s) = mailboxes s"
     "journals (update_messages f v upd b s) = journals s"
    using D'(3,4,5) by (simp_all only: um)
  show ?thesis
    by (rule exI[of _ D']) (intro conjI c1 c2 c3)
qed

lemma query_id_Some: "query_id r = Some i \<Longrightarrow> r \<noteq> NoRef"
  by (cases r) auto

lemma addEntries_array_minting:
  assumes "updated es \<noteq> []" "query_id r = Some i" "mailboxes s i = Some mb"
  shows "addEntries_array f now r es s =
     (let v = modifyIndex mb + 1;
          s1 = s\<lparr>mailboxes := (mailboxes s)(i \<mapsto> mb\<lparr>modifyIndex := v\<rparr>)\<rparr>;
          s2 = update_messages f v (updated es) (mb_id mb) s1
      in if create_throws f then (Inl (StoreError CreateFailed), s2)
         else (Inr (RetCount (length es)),
               s2\<lparr>journals := journals s2 @ map (stamp v now (mb_id mb)) es\<rparr>))"
  using assms query_id_Some[OF assms(2)]
  by (simp add: addEntries_array_def findOneAndUpdate_inc_def Let_def)

lemma addEntries_array_messages:
  assumes "distinct (map msg_id (messages s))"
  shows "messages (snd (addEntries_array f now r es s)) = messages s \<or>
         (\<exists>D v. minted r s = Some v \<and> (\<forall>x. D x \<longrightarrow> msg_id x \<in> set (updated es))
                \<and> messages (snd (addEntries_array f now r es s)) = raised D v (messages s))"
proof (cases "updated es \<noteq> [] \<and> (\<exists>i mb. query_id r = Some i \<and> mailboxes s i = Some mb)")
  case True
  then obtain i mb where h: "updated es \<noteq> []" "query_id r = Some i" "mailboxes s i = Some mb" by auto
  let ?v = "modifyIndex mb + 1"
  let ?s1 = "s\<lparr>mailboxes := (mailboxes s)(i \<mapsto> mb\<lparr>modifyIndex := ?v\<rparr>)\<rparr>"
  have d: "distinct (map msg_id (messages ?s1))" using assms by simp
  from update_messages_raised[OF d, of "updated es" "mb_id mb" f ?v]
  obtain D where D: "\<forall>x. D x \<longrightarrow> msg_id x \<in> set (updated es)"
     "messages (update_messages f ?v (updated es) (mb_id mb) ?s1) = raised D ?v (messages s)" by auto
  have "minted r s = Some ?v" using h by (simp add: minted_def)
  moreover have "messages (snd (addEntries_array f now r es s)) = raised D ?v (messages s)"
    using D(2) by (simp add: addEntries_array_minting[OF h] Let_def)
  ultimately show ?thesis using D(1) by blast
next
  case False
  have "messages (snd (addEntries_array f now r es s)) = messages s"
  proof (cases "updated es = []")
    case True
    then show ?thesis
      by (simp add: addEntries_array_def Let_def split: option.splits)
  next
    case ne: False
    show ?thesis
    proof (cases "query_id r")
      case None
      then show ?thesis by (simp add: addEntries_array_def Let_def)
    next
      case (Some i)
      then have "mailboxes s i = None" using False ne by auto
      then show ?thesis using Some ne
        by (simp add: addEntries_array_def findOneAndUpdate_inc_def findOne_def Let_def)
    qed
  qed
  then show ?thesis by simp
qed

lemma addEntries_pre:
  assumes "session_db_ok c" "instance_wsp_ok c" "password_is_string c" "as_list arg \<noteq> []"
  shows "addEntries f now c r arg s = addEntries_array f now r (as_list arg) s"
  using assms by (cases arg) (simp_all add: addEntries_def as_list_def)

lemma updated_nonempty: "updated es \<noteq> [] \<Longrightarrow> es \<noteq> []"
  by (auto simp: updated_def List.map_filter_simps)


lemma addEntries_no_call:
  assumes "\<not> (session_db_ok c \<and> instance_wsp_ok c \<and> password_is_string c \<and> as_list arg \<noteq> [])"
  shows "snd (addEntries f now c r arg s) = s"
  using assms by (cases arg) (auto simp: addEntries_def as_list_def)

lemma addEntries_messages:
  assumes "distinct (map msg_id (messages s))"
  shows "messages (snd (addEntries f now c r arg s)) = messages s \<or>
         (\<exists>D v. minted r s = Some v \<and> (\<forall>x. D x \<longrightarrow> msg_id x \<in> set (updated (as_list arg)))
                \<and> messages (snd (addEntries f now c r arg s)) = raised D v (messages s))"
proof (cases "session_db_ok c \<and> instance_wsp_ok c \<and> password_is_string c \<and> as_list arg \<noteq> []")
  case True
  then have "addEntries f now c r arg s = addEntries_array f now r (as_list arg) s"
    by (simp add: addEntries_pre)
  then show ?thesis using addEntries_array_messages[OF assms, of f now r "as_list arg"] by simp
next
  case False
  then show ?thesis by (simp add: addEntries_no_call)
qed

lemma raised_nth:
  "k < length ms \<Longrightarrow> raised D v ms ! k =
     (if D (ms ! k) \<and> msg_modseq (ms ! k) < v then (ms ! k)\<lparr>msg_modseq := v\<rparr> else ms ! k)"
  by (simp add: raised_def)

lemma addEntries_messages_exact:
  assumes d: "distinct (map msg_id (messages s))"
    and nf: "\<not> find_throws f" "\<forall>j. \<not> update_throws f j"
    and pre: "session_db_ok c" "instance_wsp_ok c" "password_is_string c"
    and h: "updated (as_list arg) \<noteq> []" "query_id r = Some i" "mailboxes s i = Some mb"
  shows "messages (snd (addEntries f now c r arg s)) =
           map (\<lambda>m. if msg_id m \<in> set (updated (as_list arg)) \<and> msg_mailbox m = mb_id mb
                        \<and> msg_modseq m < modifyIndex mb + 1
                     then m\<lparr>msg_modseq := modifyIndex mb + 1\<rparr> else m) (messages s)"
proof -
  let ?es = "as_list arg"
  let ?v = "modifyIndex mb + 1"
  let ?s1 = "s\<lparr>mailboxes := (mailboxes s)(i \<mapsto> mb\<lparr>modifyIndex := ?v\<rparr>)\<rparr>"
  let ?s2 = "update_messages f ?v (updated ?es) (mb_id mb) ?s1"
  have eq: "addEntries f now c r arg s = addEntries_array f now r ?es s"
    using addEntries_pre[OF pre updated_nonempty[OF h(1)]] .
  have d1: "distinct (map msg_id (messages ?s1))" using d by simp
  from update_messages_raised[OF d1, of "updated ?es" "mb_id mb" f ?v]
  obtain D where D: "\<not> find_throws f \<and> (\<forall>i. \<not> update_throws f i) \<longrightarrow>
        (\<forall>x. D x = (x \<in> set (messages ?s1) \<and> msg_id x \<in> set (updated ?es) \<and> msg_mailbox x = mb_id mb))"
     "messages ?s2 = raised D ?v (messages ?s1)" by blast
  have Dx: "\<And>x. D x = (x \<in> set (messages s) \<and> msg_id x \<in> set (updated ?es) \<and> msg_mailbox x = mb_id mb)"
    using D(1) nf by simp
  have "messages (snd (addEntries f now c r arg s)) = messages ?s2"
    by (simp add: eq addEntries_array_minting[OF h] Let_def)
  also have "\<dots> = raised D ?v (messages s)" using D(2) by simp
  also have "\<dots> = map (\<lambda>m. if msg_id m \<in> set (updated ?es) \<and> msg_mailbox m = mb_id mb
                        \<and> msg_modseq m < ?v then m\<lparr>msg_modseq := ?v\<rparr> else m) (messages s)"
    unfolding raised_def by (rule map_cong) (simp_all add: Dx)
  finally show ?thesis .
qed

subsection \<open>Properties of addEntries\<close>

text \<open>
  Claim C8.  Message ids being unique, \<open>addEntries\<close> never decreases a stored
  modseq: every message keeps its position, and either it is unchanged or it
  belongs to the \<open>updated\<close> list, its stored modseq was strictly below the
  minted value and it now carries exactly the minted value.  When moreover
  neither \<open>Messages.find\<close> nor an update throws, the messages raised are exactly
  those of the \<open>updated\<close> list in this mailbox that were behind.
\<close>

theorem addEntries_never_lowers_modseq:
  assumes "distinct (map msg_id (messages s))"
  shows "case addEntries f now c r arg s of (res, s') \<Rightarrow>
     length (messages s') = length (messages s) \<and>
     (\<forall>k < length (messages s).
         msg_modseq (messages s ! k) \<le> msg_modseq (messages s' ! k) \<and>
         (messages s' ! k = messages s ! k \<or>
          (msg_id (messages s ! k) \<in> set (updated (as_list arg)) \<and>
           (\<exists>v. minted r s = Some v \<and> msg_modseq (messages s ! k) < v \<and>
                 messages s' ! k = (messages s ! k)\<lparr>msg_modseq := v\<rparr>)))) \<and>
     (\<not> find_throws f \<and> (\<forall>j. \<not> update_throws f j) \<and> session_db_ok c \<and> instance_wsp_ok c
        \<and> password_is_string c \<and> updated (as_list arg) \<noteq> [] \<and> query_id r = Some i
        \<and> mailboxes s i = Some mb \<longrightarrow>
      messages s' =
        map (\<lambda>m. if msg_id m \<in> set (updated (as_list arg)) \<and> msg_mailbox m = mb_id mb
                     \<and> msg_modseq m < modifyIndex mb + 1
                  then m\<lparr>msg_modseq := modifyIndex mb + 1\<rparr> else m) (messages s))"
proof -
  obtain res s' where rs: "addEntries f now c r arg s = (res, s')" by (cases "addEntries f now c r arg s")
  then have s': "s' = snd (addEntries f now c r arg s)" by simp
  have A: "length (messages s') = length (messages s) \<and>
     (\<forall>k < length (messages s).
         msg_modseq (messages s ! k) \<le> msg_modseq (messages s' ! k) \<and>
         (messages s' ! k = messages s ! k \<or>
          (msg_id (messages s ! k) \<in> set (updated (as_list arg)) \<and>
           (\<exists>v. minted r s = Some v \<and> msg_modseq (messages s ! k) < v \<and>
                 messages s' ! k = (messages s ! k)\<lparr>msg_modseq := v\<rparr>))))"
    using addEntries_messages[OF assms, of f now c r arg]
  proof
    assume "messages (snd (addEntries f now c r arg s)) = messages s"
    then show ?thesis by (simp add: s')
  next
    assume "\<exists>D v. minted r s = Some v \<and> (\<forall>x. D x \<longrightarrow> msg_id x \<in> set (updated (as_list arg)))
                \<and> messages (snd (addEntries f now c r arg s)) = raised D v (messages s)"
    then obtain D v where Dv: "minted r s = Some v" "\<And>x. D x \<Longrightarrow> msg_id x \<in> set (updated (as_list arg))"
        "messages s' = raised D v (messages s)" using s' by blast
    have len: "length (messages s') = length (messages s)" by (simp add: Dv(3) raised_def)
    have "msg_modseq (messages s ! k) \<le> msg_modseq (messages s' ! k) \<and>
         (messages s' ! k = messages s ! k \<or>
          (msg_id (messages s ! k) \<in> set (updated (as_list arg)) \<and>
           (\<exists>v. minted r s = Some v \<and> msg_modseq (messages s ! k) < v \<and>
                 messages s' ! k = (messages s ! k)\<lparr>msg_modseq := v\<rparr>)))" if "k < length (messages s)" for k
    proof (cases "D (messages s ! k) \<and> msg_modseq (messages s ! k) < v")
      case True
      then have "messages s' ! k = (messages s ! k)\<lparr>msg_modseq := v\<rparr>"
        using that by (simp add: Dv(3) raised_nth)
      then show ?thesis using True Dv(1) Dv(2)[of "messages s ! k"] by auto
    next
      case False
      then have "messages s' ! k = messages s ! k" using that by (auto simp add: Dv(3) raised_nth)
      then show ?thesis by simp
    qed
    then show ?thesis using len by blast
  qed
  have B: "\<not> find_throws f \<and> (\<forall>j. \<not> update_throws f j) \<and> session_db_ok c \<and> instance_wsp_ok c
        \<and> password_is_string c \<and> updated (as_list arg) \<noteq> [] \<and> query_id r = Some i
        \<and> mailboxes s i = Some mb \<longrightarrow>
      messages s' =
        map (\<lambda>m. if msg_id m \<in> set (updated (as_list arg)) \<and> msg_mailbox m = mb_id mb
                     \<and> msg_modseq m < modifyIndex mb + 1
                  then m\<lparr>msg_modseq := modifyIndex mb + 1\<rparr> else m) (messages s)"
    using addEntries_messages_exact[OF assms, of f c arg r i mb now] s' by blast
  show ?thesis unfolding rs using A B by simp
qed


text \<open>
  Claim C1.  The scenario of the specification: with \<open>M.modifyIndex = 5\<close> and
  \<open>m1.modseq = 3\<close>, \<open>addEntries([{message: m1}])\<close> returns 1 and leaves
  \<open>M.modifyIndex = 6\<close>, \<open>m1.modseq = 6\<close> and exactly one journal entry, stamped
  with modseq 6.  In general: when the call passes its argument checks, the
  \<open>updated\<close> list is non-empty and the mailbox exists, the mailbox's
  \<open>modifyIndex\<close> grows by exactly one, and (unless \<open>Journals.create\<close> throws) the
  journal is extended by one entry per input entry, each entry that lacked a
  modseq carrying the new value and each other entry keeping its own.
\<close>

theorem addEntries_mints_modseq:
  "addEntries \<lparr>find_throws = False, update_throws = (\<lambda>_. False), create_throws = False\<rparr> now
      \<lparr>session_db_ok = True, instance_wsp_ok = True, password_is_string = True\<rparr>
      (RefId 1)
      (Arr [\<lparr>e_modseq = None, e_message = Some 10, e_created = None, e_mailbox = None\<rparr>])
      \<lparr>mailboxes = [1 \<mapsto> \<lparr>mb_id = 1, modifyIndex = 5\<rparr>],
       messages = [\<lparr>msg_id = 10, msg_mailbox = 1, msg_modseq = 3\<rparr>],
       journals = [], nlog = []\<rparr>
    = (Inr (RetCount 1),
       \<lparr>mailboxes = [1 \<mapsto> \<lparr>mb_id = 1, modifyIndex = 6\<rparr>],
        messages = [\<lparr>msg_id = 10, msg_mailbox = 1, msg_modseq = 6\<rparr>],
        journals = [\<lparr>e_modseq = Some 6, e_message = Some 10, e_created = Some now,
                     e_mailbox = Some 1\<rparr>],
        nlog = []\<rparr>)
   \<and> (session_db_ok c \<and> instance_wsp_ok c \<and> password_is_string c
        \<and> updated (as_list arg) \<noteq> [] \<and> query_id r = Some i \<and> mailboxes s i = Some mb
      \<longrightarrow> (case addEntries f now c r arg s of (res, s') \<Rightarrow>
            mailboxes s' = (mailboxes s)(i \<mapsto> mb\<lparr>modifyIndex := modifyIndex mb + 1\<rparr>)
            \<and> (\<not> create_throws f \<longrightarrow>
                 res = Inr (RetCount (length (as_list arg)))
                 \<and> (\<exists>js. journals s' = journals s @ js
                      \<and> list_all2 (\<lambda>e j. e_message j = e_message e
                             \<and> e_modseq j = Some (if truthy (e_modseq e) then the (e_modseq e)
                                                  else modifyIndex mb + 1))
                           (as_list arg) js))))"
proof (rule conjI)
  show "addEntries \<lparr>find_throws = False, update_throws = (\<lambda>_. False), create_throws = False\<rparr> now
      \<lparr>session_db_ok = True, instance_wsp_ok = True, password_is_string = True\<rparr>
      (RefId 1)
      (Arr [\<lparr>e_modseq = None, e_message = Some 10, e_created = None, e_mailbox = None\<rparr>])
      \<lparr>mailboxes = [1 \<mapsto> \<lparr>mb_id = 1, modifyIndex = 5\<rparr>],
       messages = [\<lparr>msg_id = 10, msg_mailbox = 1, msg_modseq = 3\<rparr>],
       journals = [], nlog = []\<rparr>
    = (Inr (RetCount 1),
       \<lparr>mailboxes = [1 \<mapsto> \<lparr>mb_id = 1, modifyIndex = 6\<rparr>],
        messages = [\<lparr>msg_id = 10, msg_mailbox = 1, msg_modseq = 6\<rparr>],
        journals = [\<lparr>e_modseq = Some 6, e_message = Some 10, e_created = Some now,
                     e_mailbox = Some 1\<rparr>],
        nlog = []\<rparr>)"
    by (simp add: addEntries_def addEntries_array_def updated_def List.map_filter_simps truthy_def
        findOneAndUpdate_inc_def stamp_def update_messages_def find_messages_def Let_def)
next
  show "session_db_ok c \<and> instance_wsp_ok c \<and> password_is_string c
        \<and> updated (as_list arg) \<noteq> [] \<and> query_id r = Some i \<and> mailboxes s i = Some mb
      \<longrightarrow> (case addEntries f now c r arg s of (res, s') \<Rightarrow>
            mailboxes s' = (mailboxes s)(i \<mapsto> mb\<lparr>modifyIndex := modifyIndex mb + 1\<rparr>)
            \<and> (\<not> create_throws f \<longrightarrow>
                 res = Inr (RetCount (length (as_list arg)))
                 \<and> (\<exists>js. journals s' = journals s @ js
                      \<and> list_all2 (\<lambda>e j. e_message j = e_message e
                             \<and> e_modseq j = Some (if truthy (e_modseq e) then the (e_modseq e)
                                                  else modifyIndex mb + 1))
                           (as_list arg) js)))"
  proof (intro impI, elim conjE)
    assume pre: "session_db_ok c" "instance_wsp_ok c" "password_is_string c"
      and h: "updated (as_list arg) \<noteq> []" "query_id r = Some i" "mailboxes s i = Some mb"
    let ?es = "as_list arg"
    let ?v = "modifyIndex mb + 1"
    let ?s1 = "s\<lparr>mailboxes := (mailboxes s)(i \<mapsto> mb\<lparr>modifyIndex := ?v\<rparr>)\<rparr>"
    let ?s2 = "update_messages f ?v (updated ?es) (mb_id mb) ?s1"
    let ?js = "map (stamp ?v now (mb_id mb)) ?es"
    have eq: "addEntries f now c r arg s = addEntries_array f now r ?es s"
      using addEntries_pre[OF pre updated_nonempty[OF h(1)]] .
    have keep: "mailboxes ?s2 = mailboxes ?s1" "journals ?s2 = journals ?s1"
    proof -
      have "mailboxes (update_messages f ?v (updated ?es) (mb_id mb) ?s1) = mailboxes ?s1
          \<and> journals (update_messages f ?v (updated ?es) (mb_id mb) ?s1) = journals ?s1"
      proof (cases "find_throws f")
        case True then show ?thesis by (simp add: update_messages_def)
      next
        case False
        have "\<And>t. mailboxes (raise_modseqs f ?v fs t) = mailboxes t
                 \<and> journals (raise_modseqs f ?v fs t) = journals t" for fs
          by (induction fs) auto
        then show ?thesis using False by (simp add: update_messages_def)
      qed
      then show "mailboxes ?s2 = mailboxes ?s1" "journals ?s2 = journals ?s1" by simp_all
    qed
    have st: "list_all2 (\<lambda>e j. e_message j = e_message e
                \<and> e_modseq j = Some (if truthy (e_modseq e) then the (e_modseq e) else ?v)) ?es ?js"
      by (simp add: list_all2_map2 stamp_def list_all2_same)
    show "case addEntries f now c r arg s of (res, s') \<Rightarrow>
            mailboxes s' = (mailboxes s)(i \<mapsto> mb\<lparr>modifyIndex := modifyIndex mb + 1\<rparr>)
            \<and> (\<not> create_throws f \<longrightarrow>
                 res = Inr (RetCount (length (as_list arg)))
                 \<and> (\<exists>js. journals s' = journals s @ js
                      \<and> list_all2 (\<lambda>e j. e_message j = e_message e
                             \<and> e_modseq j = Some (if truthy (e_modseq e) then the (e_modseq e)
                                                  else modifyIndex mb + 1))
                           (as_list arg) js))"
    proof (cases "create_throws f")
      case True
      then show ?thesis using keep(1)
        by (simp add: eq addEntries_array_minting[OF h] Let_def)
    next
      case False
      have "\<exists>js. journals ?s2 @ ?js = journals s @ js \<and> list_all2 (\<lambda>e j. e_message j = e_message e
                \<and> e_modseq j = Some (if truthy (e_modseq e) then the (e_modseq e) else ?v)) ?es js"
        using st keep(2) by (intro exI[of _ ?js]) simp
      then show ?thesis using False keep(1)
        by (simp add: eq addEntries_array_minting[OF h] Let_def)
    qed
  qed
qed


text \<open>The general part of C1 at a two-entry call on a mailbox with \<open>modifyIndex = 7\<close>.\<close>

theorem addEntries_mints_modseq_witness:
  "updated (as_list (Arr [\<lparr>e_modseq = None, e_message = Some 4, e_created = None, e_mailbox = None\<rparr>,
                          \<lparr>e_modseq = Some 9, e_message = None, e_created = Some 1, e_mailbox = Some 2\<rparr>])) \<noteq> []
   \<and> (case addEntries \<lparr>find_throws = False, update_throws = (\<lambda>_. False), create_throws = False\<rparr> 77
          \<lparr>session_db_ok = True, instance_wsp_ok = True, password_is_string = True\<rparr>
          (RefId 2)
          (Arr [\<lparr>e_modseq = None, e_message = Some 4, e_created = None, e_mailbox = None\<rparr>,
                \<lparr>e_modseq = Some 9, e_message = None, e_created = Some 1, e_mailbox = Some 2\<rparr>])
          \<lparr>mailboxes = [2 \<mapsto> \<lparr>mb_id = 2, modifyIndex = 7\<rparr>], messages = [], journals = [], nlog = []\<rparr>
       of (res, s') \<Rightarrow> mailboxes s' 2 = Some \<lparr>mb_id = 2, modifyIndex = 8\<rparr>
                        \<and> res = Inr (RetCount 2)
                        \<and> map e_modseq (journals s') = [Some 8, Some 9])"
  using addEntries_mints_modseq[where c = "\<lparr>session_db_ok = True, instance_wsp_ok = True, password_is_string = True\<rparr>"
      and arg = "Arr [\<lparr>e_modseq = None, e_message = Some 4, e_created = None, e_mailbox = None\<rparr>,
                \<lparr>e_modseq = Some 9, e_message = None, e_created = Some 1, e_mailbox = Some 2\<rparr>]"
      and r = "RefId 2" and i = 2
      and s = "\<lparr>mailboxes = [2 \<mapsto> \<lparr>mb_id = 2, modifyIndex = 7\<rparr>], messages = [], journals = [], nlog = []\<rparr>"
      and mb = "\<lparr>mb_id = 2, modifyIndex = 7\<rparr>"
      and f = "\<lparr>find_throws = False, update_throws = (\<lambda>_. False), create_throws = False\<rparr>"
      and now = 77]
  by (simp add: addEntries_def addEntries_array_def updated_def List.map_filter_simps truthy_def
        findOneAndUpdate_inc_def stamp_def update_messages_def find_messages_def as_list_def Let_def)

text \<open>C8 on two messages, one behind the minted value 8 and one ahead of it.\<close>

theorem addEntries_never_lowers_modseq_witness:
  "distinct (map msg_id [\<lparr>msg_id = 10, msg_mailbox = 2, msg_modseq = 3\<rparr>,
                         \<lparr>msg_id = 11, msg_mailbox = 2, msg_modseq = 12\<rparr>])
   \<and> map msg_modseq (messages (snd (addEntries
          \<lparr>find_throws = False, update_throws = (\<lambda>_. False), create_throws = False\<rparr> 77
          \<lparr>session_db_ok = True, instance_wsp_ok = True, password_is_string = True\<rparr>
          (RefId 2)
          (Arr [\<lparr>e_modseq = None, e_message = Some 10, e_created = None, e_mailbox = None\<rparr>,
                \<lparr>e_modseq = None, e_message = Some 11, e_created = None, e_mailbox = None\<rparr>])
          \<lparr>mailboxes = [2 \<mapsto> \<lparr>mb_id = 2, modifyIndex = 7\<rparr>],
           messages = [\<lparr>msg_id = 10, msg_mailbox = 2, msg_modseq = 3\<rparr>,
                       \<lparr>msg_id = 11, msg_mailbox = 2, msg_modseq = 12\<rparr>],
           journals = [], nlog = []\<rparr>))) = [8, 12]"
  using addEntries_never_lowers_modseq[where
      s = "\<lparr>mailboxes = [2 \<mapsto> \<lparr>mb_id = 2, modifyIndex = 7\<rparr>],
           messages = [\<lparr>msg_id = 10, msg_mailbox = 2, msg_modseq = 3\<rparr>,
                       \<lparr>msg_id = 11, msg_mailbox = 2, msg_modseq = 12\<rparr>],
           journals = [], nlog = []\<rparr>"
      and c = "\<lparr>session_db_ok = True, instance_wsp_ok = True, password_is_string = True\<rparr>"
      and arg = "Arr [\<lparr>e_modseq = None, e_message = Some 10, e_created = None, e_mailbox = None\<rparr>,
                \<lparr>e_modseq = None, e_message = Some 11, e_created = None, e_mailbox = None\<rparr>]"
      and r = "RefId 2" and i = 2 and mb = "\<lparr>mb_id = 2, modifyIndex = 7\<rparr>"
      and f = "\<lparr>find_throws = False, update_throws = (\<lambda>_. False), create_throws = False\<rparr>"
      and now = 77]
  by (simp add: addEntries_def addEntries_array_def updated_def List.map_filter_simps truthy_def
        findOneAndUpdate_inc_def stamp_def update_messages_def find_messages_def as_list_def Let_def)


subsection \<open>Local listeners, broadcast envelopes and the debounce scheduler\<close>

text \<open>
  A JSON value as far as the subscriber looks at it; \<open>Undefined\<close> is an absent
  property.  \<open>truthy_j\<close> is JavaScript truthiness.
\<close>

datatype jval = Undefined | Null | Bool bool | Num int | Str string | Object string

fun truthy_j :: "jval \<Rightarrow> bool" where
  "truthy_j Undefined = False"
| "truthy_j Null = False"
| "truthy_j (Bool b) = b"
| "truthy_j (Num n) = (n \<noteq> 0)"
| "truthy_j (Str s) = (s \<noteq> [])"
| "truthy_j (Object _) = True"

text \<open>
  The envelope \<open>{e, p}\<close>: \<open>e\<close> is the account key (a string when present),
  \<open>p\<close> the payload.  What \<open>JSON.parse\<close> makes of a raw message: a syntax
  error, \<open>null\<close>, a primitive, or an object with these two properties.
\<close>

record envelope =
  e :: "string option"
  p :: jval

datatype parsed = PNull | PPrimitive | PObject envelope

datatype raw_message = Malformed | Json parsed

definition truthy_s :: "string option \<Rightarrow> bool" where
  "truthy_s v = (case v of None \<Rightarrow> False | Some s \<Rightarrow> s \<noteq> [])"

text \<open>
  A pending record of \<open>publishTimers\<close>: the pulse count, the time of the first
  pulse and the deadline of the armed timer (\<open>None\<close> once cleared).  Times are
  milliseconds as \<open>Date.now()\<close> gives them.
\<close>

record tdata =
  t_count :: nat
  t_initial :: int
  t_timeout :: "int option"

text \<open>
  The notifier: \<open>publishTimers\<close> is the \<open>Map\<close> (in insertion order),
  \<open>listeners\<close> the registrations of \<open>this._listeners\<close> (event name, handler),
  \<open>emits\<close> the calls of \<open>this._listeners.emit\<close> with their time, and
  \<open>delivered\<close> the handler invocations these calls made.
\<close>

record nstate =
  publishTimers :: "(string \<times> tdata) list"
  listeners :: "(string \<times> nat) list"
  emits :: "(int \<times> string \<times> jval) list"
  delivered :: "(nat \<times> string \<times> jval) list"

definition addListener :: "string \<Rightarrow> nat \<Rightarrow> nstate \<Rightarrow> nstate" where
  "addListener alias_id handler st = st\<lparr>listeners := listeners st @ [(alias_id, handler)]\<rparr>"

text \<open>\<open>EventEmitter.removeListener\<close> removes the most recently added instance.\<close>

definition removeListener :: "string \<Rightarrow> nat \<Rightarrow> nstate \<Rightarrow> nstate" where
  "removeListener alias_id handler st =
     st\<lparr>listeners := rev (remove1 (alias_id, handler) (rev (listeners st)))\<rparr>"

definition handlers_of :: "string \<Rightarrow> nstate \<Rightarrow> nat list" where
  "handlers_of ev st = map snd (filter (\<lambda>r. fst r = ev) (listeners st))"

text \<open>
  \<open>this._listeners.emit(ev, payload)\<close> at time \<open>now\<close>: every handler registered
  under \<open>ev\<close> is called once.  Node's \<open>EventEmitter\<close> raises when the event name
  is \<open>error\<close> and no listener is registered for it; no handler has run then.
  The call is given by two functions: \<open>emit\<close> is the state it leaves,
  \<open>emit_throws\<close> tells whether it raises.  The handlers themselves are the
  sessions' callbacks and are taken to return.
\<close>

definition emit_throws :: "string \<Rightarrow> nstate \<Rightarrow> bool" where
  "emit_throws ev st = (ev = ''error'' \<and> handlers_of ev st = [])"

definition emit :: "int \<Rightarrow> string \<Rightarrow> jval \<Rightarrow> nstate \<Rightarrow> nstate" where
  "emit now ev payload st =
     st\<lparr>emits := emits st @ [(now, ev, payload)],
        delivered := delivered st @ map (\<lambda>h. (h, ev, payload)) (handlers_of ev st)\<rparr>"

text \<open>The closure \<open>fire\<close> of \<open>scheduleDataEvent\<close>: clear the timer, delete the record, emit.\<close>

definition fire_timer :: "int \<Rightarrow> string \<Rightarrow> nstate \<Rightarrow> nstate" where
  "fire_timer now ev st =
     emit now ev Undefined (st\<lparr>publishTimers := AList.delete ev (publishTimers st)\<rparr>)"

definition scheduleDataEvent :: "int \<Rightarrow> string \<Rightarrow> nstate \<Rightarrow> nstate" where
  "scheduleDataEvent now ev st =
     (case map_of (publishTimers st) ev of
        Some data \<Rightarrow>
          (let data' = data\<lparr>t_timeout := None, t_count := t_count data + 1\<rparr>
           in if t_initial data' < now - 1000
              then fire_timer now ev (st\<lparr>publishTimers := AList.update ev data' (publishTimers st)\<rparr>)
              else st\<lparr>publishTimers :=
                        AList.update ev (data'\<lparr>t_timeout := Some (now + 100)\<rparr>) (publishTimers st)\<rparr>)
      | None \<Rightarrow>
          st\<lparr>publishTimers := publishTimers st @
                [(ev, \<lparr>t_count = 1, t_initial = now, t_timeout = Some (now + 100)\<rparr>)]\<rparr>)"

text \<open>
  \<open>scheduleDataEvent\<close> raises exactly when it calls \<open>fire\<close> itself (\<open>return fire()\<close>)
  and the \<open>emit\<close> in it raises; \<open>scheduleDataEvent\<close> above is the state it leaves
  either way.
\<close>

definition scheduleDataEvent_throws :: "int \<Rightarrow> string \<Rightarrow> nstate \<Rightarrow> bool" where
  "scheduleDataEvent_throws now ev st =
     (case map_of (publishTimers st) ev of
        Some data \<Rightarrow> t_initial data < now - 1000 \<and> emit_throws ev st
      | None \<Rightarrow> False)"

text \<open>
  The event loop up to time \<open>t\<close>: the armed timers whose deadline has been
  reached run their callback, earliest deadline first, each at its deadline.
  Should the \<open>emit\<close> of a callback raise (\<open>emit_throws\<close>), Node reports an
  uncaught exception; what the process does then is outside this model, which
  goes on from the state the callback left.
\<close>

definition due :: "int \<Rightarrow> string \<times> tdata \<Rightarrow> bool" where
  "due t r = (case t_timeout (snd r) of None \<Rightarrow> False | Some d \<Rightarrow> d \<le> t)"

definition advance :: "int \<Rightarrow> nstate \<Rightarrow> nstate" where
  "advance t st =
     fold (\<lambda>r s. fire_timer (the (t_timeout (snd r))) (fst r) s)
          (sort_key (\<lambda>r. the (t_timeout (snd r))) (filter (due t) (publishTimers st))) st"

text \<open>
  The subscriber's \<open>message\<close> handler at time \<open>now\<close>.  \<open>chan\<close> is
  \<open>config.IMAP_REDIS_CHANNEL_NAME\<close>.  The result is the exception that leaves
  the handler, if any, and the state the handler leaves: reading a property of
  \<open>null\<close> raises a \<open>TypeError\<close>, and what \<open>emit\<close> raises is not caught.
\<close>

datatype exn = TypeError | UnhandledErrorEvent

definition on_message ::
  "string \<Rightarrow> int \<Rightarrow> string \<Rightarrow> raw_message \<Rightarrow> nstate \<Rightarrow> exn option \<times> nstate" where
  "on_message chan now channel message st =
     (if channel \<noteq> chan then (None, st)
      else case message of
             Malformed \<Rightarrow> (None, st)
           | Json PNull \<Rightarrow> (Some TypeError, st)
           | Json PPrimitive \<Rightarrow> (None, st)
           | Json (PObject data) \<Rightarrow>
               (if truthy_s (e data) \<and> \<not> truthy_j (p data)
                then (if scheduleDataEvent_throws now (the (e data)) st
                      then Some UnhandledErrorEvent else None,
                      scheduleDataEvent now (the (e data)) st)
                else if truthy_s (e data)
                then (if emit_throws (the (e data)) st then Some UnhandledErrorEvent else None,
                      emit now (the (e data)) (p data) st)
                else (None, st)))"

text \<open>
  A train of payload-less pulses for one account key arriving at the given
  times: before each pulse the event loop has run up to its arrival time.
\<close>

definition pulses :: "string \<Rightarrow> int list \<Rightarrow> nstate \<Rightarrow> nstate" where
  "pulses ev ts st = fold (\<lambda>t s. scheduleDataEvent t ev (advance t s)) ts st"

subsection \<open>releaseConnection\<close>

text \<open>
  What \<open>releaseConnection\<close> reads of its argument: the alias and domain ids
  (absent when \<open>data\<close>, its session or its user is) and whether
  \<open>session.db.close\<close> is a function.
\<close>

record rdata =
  alias_id :: "string option"
  domain_id :: "string option"
  db_close_is_function :: bool

text \<open>
  The world it acts on: whether the session's database is open, the
  connection counters of the publisher with their expiry, and the log.
  \<open>pragma_throws\<close>, \<open>close_throws\<close> and \<open>exec_rejects\<close> are the failures of
  the collaborators; \<open>pragma\<close> also throws on a closed database.
\<close>

datatype rerror = DbError | PipelineError

record rworld =
  db_open :: bool
  counters :: "string \<Rightarrow> int"
  expires :: "string \<rightharpoonup> nat"
  rlog :: "rerror list"

record rfaults =
  pragma_throws :: bool
  close_throws :: bool
  exec_rejects :: bool

datatype callback = Callback "rerror option" bool

text \<open>The body of the \<open>try\<close> block: \<open>db.pragma('optimize'); db.close()\<close>.\<close>

definition optimize_and_close :: "rfaults \<Rightarrow> rworld \<Rightarrow> rerror + rworld" where
  "optimize_and_close f w =
     (if \<not> db_open w \<or> pragma_throws f then Inl DbError
      else if close_throws f then Inl DbError
      else Inr (w\<lparr>db_open := False\<rparr>))"

definition str :: "string option \<Rightarrow> string" where
  "str v = (case v of None \<Rightarrow> ''undefined'' | Some s \<Rightarrow> s)"

definition connections_key :: "string \<Rightarrow> string option \<Rightarrow> string" where
  "connections_key env v = ''connections_'' @ env @ '':'' @ str v"

text \<open>The pipeline \<open>decr(key).pexpire(key, 1h).decr(domainKey).pexpire(domainKey, 1h).exec()\<close>.\<close>

definition decr :: "string \<Rightarrow> rworld \<Rightarrow> rworld" where
  "decr k w = w\<lparr>counters := (counters w)(k := counters w k - 1)\<rparr>"

definition pexpire :: "string \<Rightarrow> nat \<Rightarrow> rworld \<Rightarrow> rworld" where
  "pexpire k ttl w = w\<lparr>expires := (expires w)(k \<mapsto> ttl)\<rparr>"

definition exec_pipeline :: "rfaults \<Rightarrow> string \<Rightarrow> string \<Rightarrow> rworld \<Rightarrow> rerror + rworld" where
  "exec_pipeline f key domainKey w =
     (if exec_rejects f then Inl PipelineError
      else Inr (pexpire domainKey 3600000 (decr domainKey (pexpire key 3600000 (decr key w)))))"

text \<open>
  \<open>releaseConnection(data, fn)\<close>: the result is either an exception leaving the
  function or the list of calls made to \<open>fn\<close>, with the world afterwards.
\<close>

definition releaseConnection ::
  "rfaults \<Rightarrow> string \<Rightarrow> rdata \<Rightarrow> rworld \<Rightarrow> (rerror + callback list) \<times> rworld" where
  "releaseConnection f env data w =
     (if \<not> truthy_s (alias_id data) then (Inr [Callback None True], w)
      else
        let w1 = (if db_close_is_function data
                  then (case optimize_and_close f w of
                          Inl err \<Rightarrow> w\<lparr>rlog := rlog w @ [err]\<rparr>
                        | Inr w' \<Rightarrow> w')
                  else w);
            key = connections_key env (alias_id data);
            domainKey = connections_key env (domain_id data);
            w2 = (case exec_pipeline f key domainKey w1 of
                    Inl err \<Rightarrow> w1\<lparr>rlog := rlog w1 @ [err]\<rparr>
                  | Inr w' \<Rightarrow> w')
        in (Inr [Callback None True], w2))"

subsection \<open>Properties of the scheduler, the subscriber and releaseConnection\<close>

text \<open>
  A burst after a first pulse at \<open>t0\<close>: every pulse arrives at most 50 ms
  after the previous one and at most 1000 ms after the first.
\<close>

fun burst :: "int \<Rightarrow> int \<Rightarrow> int list \<Rightarrow> bool" where
  "burst t0 prev [] = True"
| "burst t0 prev (t # ts) = (prev \<le> t \<and> t - prev \<le> 50 \<and> t - t0 \<le> 1000 \<and> burst t0 t ts)"

lemma sched_new:
  "map_of (publishTimers st) ev = None \<Longrightarrow>
   scheduleDataEvent now ev st =
     st\<lparr>publishTimers := publishTimers st @
          [(ev, \<lparr>t_count = 1, t_initial = now, t_timeout = Some (now + 100)\<rparr>)]\<rparr>"
  by (simp add: scheduleDataEvent_def)

lemma sched_rearm:
  "map_of (publishTimers st) ev = Some d \<Longrightarrow> \<not> now - t_initial d > 1000 \<Longrightarrow>
   scheduleDataEvent now ev st =
     st\<lparr>publishTimers := AList.update ev
           (d\<lparr>t_count := t_count d + 1, t_timeout := Some (now + 100)\<rparr>) (publishTimers st)\<rparr>"
  by (simp add: scheduleDataEvent_def Let_def)

lemma sched_force:
  "map_of (publishTimers st) ev = Some d \<Longrightarrow> now - t_initial d > 1000 \<Longrightarrow>
   scheduleDataEvent now ev st =
     emit now ev Undefined (st\<lparr>publishTimers := AList.delete ev (publishTimers st)\<rparr>)"
  by (simp add: scheduleDataEvent_def Let_def fire_timer_def delete_update_same)

lemma advance_not_due:
  "publishTimers st = [(k, d)] \<Longrightarrow> t_timeout d = Some dl \<Longrightarrow> t < dl \<Longrightarrow> advance t st = st"
  by (simp add: advance_def due_def)

lemma advance_due:
  "publishTimers st = [(k, d)] \<Longrightarrow> t_timeout d = Some dl \<Longrightarrow> dl \<le> t \<Longrightarrow>
   advance t st = emit dl k Undefined (st\<lparr>publishTimers := []\<rparr>)"
  by (simp add: advance_def due_def fire_timer_def)

lemma advance_empty: "publishTimers st = [] \<Longrightarrow> advance t st = st"
  by (simp add: advance_def)

lemma pulse_pending:
  assumes "publishTimers st = [(k, \<lparr>t_count = n, t_initial = t0, t_timeout = Some (prev + 100)\<rparr>)]"
    and "prev \<le> t" "t - prev \<le> 50" "t - t0 \<le> 1000"
  shows "scheduleDataEvent t k (advance t st) =
           st\<lparr>publishTimers := [(k, \<lparr>t_count = n + 1, t_initial = t0, t_timeout = Some (t + 100)\<rparr>)]\<rparr>"
proof -
  have a: "advance t st = st"
    using advance_not_due[OF assms(1), of "prev + 100" t] assms by simp
  have m: "map_of (publishTimers st) k = Some \<lparr>t_count = n, t_initial = t0, t_timeout = Some (prev + 100)\<rparr>"
    using assms(1) by simp
  show ?thesis using sched_rearm[OF m, of t] assms by (simp add: a)
qed

lemma pulses_pending:
  assumes "publishTimers st = [(k, \<lparr>t_count = n, t_initial = t0, t_timeout = Some (prev + 100)\<rparr>)]"
    and "burst t0 prev ts"
  shows "pulses k ts st =
           st\<lparr>publishTimers := [(k, \<lparr>t_count = n + length ts, t_initial = t0,
                                      t_timeout = Some (last (prev # ts) + 100)\<rparr>)]\<rparr>"
  using assms
proof (induction ts arbitrary: st n prev)
  case Nil
  then show ?case by (simp add: pulses_def)
next
  case (Cons t ts)
  let ?st = "st\<lparr>publishTimers := [(k, \<lparr>t_count = n + 1, t_initial = t0, t_timeout = Some (t + 100)\<rparr>)]\<rparr>"
  have step: "scheduleDataEvent t k (advance t st) = ?st"
    using pulse_pending[OF Cons.prems(1)] Cons.prems(2) by simp
  have "pulses k (t # ts) st = pulses k ts ?st"
    by (simp add: pulses_def step)
  also have "\<dots> = ?st\<lparr>publishTimers := [(k, \<lparr>t_count = (n + 1) + length ts, t_initial = t0,
                                      t_timeout = Some (last (t # ts) + 100)\<rparr>)]\<rparr>"
    using Cons.IH[of ?st "n + 1" t] Cons.prems(2) by simp
  finally show ?case by simp
qed

lemma pulses_fresh:
  assumes "publishTimers st = []" "burst t0 t0 ts"
  shows "pulses k (t0 # ts) st =
           st\<lparr>publishTimers := [(k, \<lparr>t_count = 1 + length ts, t_initial = t0,
                                      t_timeout = Some (last (t0 # ts) + 100)\<rparr>)]\<rparr>"
proof -
  let ?st = "st\<lparr>publishTimers := [(k, \<lparr>t_count = 1, t_initial = t0, t_timeout = Some (t0 + 100)\<rparr>)]\<rparr>"
  have "scheduleDataEvent t0 k (advance t0 st) = ?st"
    using assms(1) by (simp add: advance_empty sched_new)
  then have "pulses k (t0 # ts) st = pulses k ts ?st" by (simp add: pulses_def)
  also have "\<dots> = ?st\<lparr>publishTimers := [(k, \<lparr>t_count = 1 + length ts, t_initial = t0,
                                      t_timeout = Some (last (t0 # ts) + 100)\<rparr>)]\<rparr>"
    using pulses_pending[of ?st k 1 t0 t0 ts] assms(2) by simp
  finally show ?thesis by simp
qed

lemma pulses_append: "pulses k (ts @ us) st = pulses k us (pulses k ts st)"
  by (simp add: pulses_def)


text \<open>
  Claim C6, as the code has it.  The three transitions of
  \<open>scheduleDataEvent\<close>: a pulse with no pending record creates one and arms a
  100 ms timer; a pulse with a pending record whose first pulse is more than
  1000 ms old emits one event at once and deletes the record; otherwise the
  record's timer is replaced by a fresh 100 ms timer.  Consequently, on a
  notifier with no pending record, a burst of pulses at most 50 ms apart that
  spans at most 1000 ms emits nothing before 100 ms of quiescence and exactly
  one event then; and if the burst goes on, the forced emission happens at the
  first pulse that arrives more than 1000 ms after the first one, not earlier.
\<close>

theorem debounce_state_machine:
  "(map_of (publishTimers st) ev = None \<longrightarrow>
      scheduleDataEvent now ev st =
        st\<lparr>publishTimers := publishTimers st @
             [(ev, \<lparr>t_count = 1, t_initial = now, t_timeout = Some (now + 100)\<rparr>)]\<rparr>)
   \<and> (map_of (publishTimers st) ev = Some d \<and> now - t_initial d > 1000 \<longrightarrow>
      scheduleDataEvent now ev st =
        st\<lparr>publishTimers := AList.delete ev (publishTimers st),
           emits := emits st @ [(now, ev, Undefined)],
           delivered := delivered st @ map (\<lambda>h. (h, ev, Undefined)) (handlers_of ev st)\<rparr>)
   \<and> (map_of (publishTimers st) ev = Some d \<and> \<not> now - t_initial d > 1000 \<longrightarrow>
      scheduleDataEvent now ev st =
        st\<lparr>publishTimers := AList.update ev
              (d\<lparr>t_count := t_count d + 1, t_timeout := Some (now + 100)\<rparr>) (publishTimers st)\<rparr>)
   \<and> (publishTimers st = [] \<and> burst t0 t0 ts \<and> last (t0 # ts) + 100 \<le> T \<longrightarrow>
      (\<forall>T' < last (t0 # ts) + 100. emits (advance T' (pulses ev (t0 # ts) st)) = emits st)
      \<and> advance T (pulses ev (t0 # ts) st) =
          st\<lparr>emits := emits st @ [(last (t0 # ts) + 100, ev, Undefined)],
             delivered := delivered st @ map (\<lambda>h. (h, ev, Undefined)) (handlers_of ev st)\<rparr>)
   \<and> (publishTimers st = [] \<and> burst t0 t0 ts \<and> last (t0 # ts) \<le> t' \<and> t' - last (t0 # ts) \<le> 50
        \<and> t' - t0 > 1000 \<longrightarrow>
      pulses ev (t0 # ts @ [t']) st =
          st\<lparr>emits := emits st @ [(t', ev, Undefined)],
             delivered := delivered st @ map (\<lambda>h. (h, ev, Undefined)) (handlers_of ev st)\<rparr>)"
proof (intro conjI impI)
  assume "map_of (publishTimers st) ev = None"
  then show "scheduleDataEvent now ev st =
        st\<lparr>publishTimers := publishTimers st @
             [(ev, \<lparr>t_count = 1, t_initial = now, t_timeout = Some (now + 100)\<rparr>)]\<rparr>"
    by (rule sched_new)
next
  assume "map_of (publishTimers st) ev = Some d \<and> now - t_initial d > 1000"
  then show "scheduleDataEvent now ev st =
        st\<lparr>publishTimers := AList.delete ev (publishTimers st),
           emits := emits st @ [(now, ev, Undefined)],
           delivered := delivered st @ map (\<lambda>h. (h, ev, Undefined)) (handlers_of ev st)\<rparr>"
    by (simp add: sched_force emit_def handlers_of_def)
next
  assume "map_of (publishTimers st) ev = Some d \<and> \<not> now - t_initial d > 1000"
  then show "scheduleDataEvent now ev st =
        st\<lparr>publishTimers := AList.update ev
              (d\<lparr>t_count := t_count d + 1, t_timeout := Some (now + 100)\<rparr>) (publishTimers st)\<rparr>"
    by (simp add: sched_rearm)
next
  assume h: "publishTimers st = [] \<and> burst t0 t0 ts \<and> last (t0 # ts) + 100 \<le> T"
  let ?d = "\<lparr>t_count = 1 + length ts, t_initial = t0, t_timeout = Some (last (t0 # ts) + 100)\<rparr>"
  let ?st = "st\<lparr>publishTimers := [(ev, ?d)]\<rparr>"
  have p: "pulses ev (t0 # ts) st = ?st" using pulses_fresh[of st t0 ts ev] h by simp
  have pt: "publishTimers ?st = [(ev, ?d)]" by simp
  show "\<forall>T' < last (t0 # ts) + 100. emits (advance T' (pulses ev (t0 # ts) st)) = emits st"
  proof (intro allI impI)
    fix T' assume "T' < last (t0 # ts) + 100"
    then have "advance T' ?st = ?st" using advance_not_due[OF pt, of "last (t0 # ts) + 100" T'] by simp
    then show "emits (advance T' (pulses ev (t0 # ts) st)) = emits st" by (simp add: p)
  qed
  have "advance T ?st = emit (last (t0 # ts) + 100) ev Undefined (?st\<lparr>publishTimers := []\<rparr>)"
    using advance_due[OF pt, of "last (t0 # ts) + 100" T] h by simp
  then show "advance T (pulses ev (t0 # ts) st) =
          st\<lparr>emits := emits st @ [(last (t0 # ts) + 100, ev, Undefined)],
             delivered := delivered st @ map (\<lambda>h. (h, ev, Undefined)) (handlers_of ev st)\<rparr>"
    using h by (simp add: p emit_def handlers_of_def)
next
  assume h: "publishTimers st = [] \<and> burst t0 t0 ts \<and> last (t0 # ts) \<le> t' \<and> t' - last (t0 # ts) \<le> 50
        \<and> t' - t0 > 1000"
  let ?d = "\<lparr>t_count = 1 + length ts, t_initial = t0, t_timeout = Some (last (t0 # ts) + 100)\<rparr>"
  let ?st = "st\<lparr>publishTimers := [(ev, ?d)]\<rparr>"
  have p: "pulses ev (t0 # ts) st = ?st" using pulses_fresh[of st t0 ts ev] h by simp
  have pt: "publishTimers ?st = [(ev, ?d)]" by simp
  have a: "advance t' ?st = ?st" using advance_not_due[OF pt, of "last (t0 # ts) + 100" t'] h by simp
  have m: "map_of (publishTimers ?st) ev = Some ?d" by simp
  have "pulses ev (t0 # ts @ [t']) st = pulses ev [t'] (pulses ev (t0 # ts) st)"
    using pulses_append[of ev "t0 # ts" "[t']" st] by simp
  also have "\<dots> = pulses ev [t'] ?st" by (simp only: p)
  also have "\<dots> = scheduleDataEvent t' ev (advance t' ?st)" by (simp add: pulses_def)
  also have "\<dots> = emit t' ev Undefined (?st\<lparr>publishTimers := AList.delete ev (publishTimers ?st)\<rparr>)"
    unfolding a using sched_force[OF m, of t'] h by simp
  also have "\<dots> = st\<lparr>emits := emits st @ [(t', ev, Undefined)],
             delivered := delivered st @ map (\<lambda>h. (h, ev, Undefined)) (handlers_of ev st)\<rparr>"
    using h by (simp add: emit_def handlers_of_def)
  finally show "pulses ev (t0 # ts @ [t']) st =
          st\<lparr>emits := emits st @ [(t', ev, Undefined)],
             delivered := delivered st @ map (\<lambda>h. (h, ev, Undefined)) (handlers_of ev st)\<rparr>" .
qed


text \<open>
  The five parts of C6 at concrete inputs; the last is the burst of one pulse
  every 50 ms, whose forced emission falls at 1050 ms.
\<close>

theorem debounce_state_machine_witness:
  "scheduleDataEvent 5 ''a'' \<lparr>publishTimers = [], listeners = [(''a'', 7)], emits = [], delivered = []\<rparr>
     = \<lparr>publishTimers = [(''a'', \<lparr>t_count = 1, t_initial = 5, t_timeout = Some 105\<rparr>)],
        listeners = [(''a'', 7)], emits = [], delivered = []\<rparr>
   \<and> scheduleDataEvent 1040 ''a''
        \<lparr>publishTimers = [(''a'', \<lparr>t_count = 3, t_initial = 0, t_timeout = Some 1090\<rparr>)],
         listeners = [(''a'', 7)], emits = [], delivered = []\<rparr>
     = \<lparr>publishTimers = [], listeners = [(''a'', 7)], emits = [(1040, ''a'', Undefined)],
        delivered = [(7, ''a'', Undefined)]\<rparr>
   \<and> scheduleDataEvent 1000 ''a''
        \<lparr>publishTimers = [(''a'', \<lparr>t_count = 3, t_initial = 0, t_timeout = Some 1090\<rparr>)],
         listeners = [(''a'', 7)], emits = [], delivered = []\<rparr>
     = \<lparr>publishTimers = [(''a'', \<lparr>t_count = 4, t_initial = 0, t_timeout = Some 1100\<rparr>)],
        listeners = [(''a'', 7)], emits = [], delivered = []\<rparr>
   \<and> advance 180 (pulses ''a'' [0, 30, 80]
        \<lparr>publishTimers = [], listeners = [(''a'', 7)], emits = [], delivered = []\<rparr>)
     = \<lparr>publishTimers = [], listeners = [(''a'', 7)], emits = [(180, ''a'', Undefined)],
        delivered = [(7, ''a'', Undefined)]\<rparr>
   \<and> pulses ''a'' [0, 50, 100, 150, 200, 250, 300, 350, 400, 450, 500, 550, 600, 650, 700,
                     750, 800, 850, 900, 950, 1000, 1050]
        \<lparr>publishTimers = [], listeners = [(''a'', 7)], emits = [], delivered = []\<rparr>
     = \<lparr>publishTimers = [], listeners = [(''a'', 7)], emits = [(1050, ''a'', Undefined)],
        delivered = [(7, ''a'', Undefined)]\<rparr>"
proof (intro conjI)
  let ?fresh = "\<lparr>publishTimers = [], listeners = [(''a'', 7)], emits = [], delivered = []\<rparr>"
  let ?d = "\<lparr>t_count = 3, t_initial = 0, t_timeout = Some 1090\<rparr>"
  let ?pend = "\<lparr>publishTimers = [(''a'', ?d)], listeners = [(''a'', 7)], emits = [], delivered = []\<rparr>"
  show "scheduleDataEvent 5 ''a'' ?fresh
     = \<lparr>publishTimers = [(''a'', \<lparr>t_count = 1, t_initial = 5, t_timeout = Some 105\<rparr>)],
        listeners = [(''a'', 7)], emits = [], delivered = []\<rparr>"
    using debounce_state_machine[where st = ?fresh and ev = "''a''" and now = 5] by simp
  show "scheduleDataEvent 1040 ''a'' ?pend
     = \<lparr>publishTimers = [], listeners = [(''a'', 7)], emits = [(1040, ''a'', Undefined)],
        delivered = [(7, ''a'', Undefined)]\<rparr>"
    using debounce_state_machine[where st = ?pend and ev = "''a''" and now = 1040 and d = ?d]
    by (simp add: handlers_of_def)
  show "scheduleDataEvent 1000 ''a'' ?pend
     = \<lparr>publishTimers = [(''a'', \<lparr>t_count = 4, t_initial = 0, t_timeout = Some 1100\<rparr>)],
        listeners = [(''a'', 7)], emits = [], delivered = []\<rparr>"
    using debounce_state_machine[where st = ?pend and ev = "''a''" and now = 1000 and d = ?d]
    by simp
  show "advance 180 (pulses ''a'' [0, 30, 80] ?fresh)
     = \<lparr>publishTimers = [], listeners = [(''a'', 7)], emits = [(180, ''a'', Undefined)],
        delivered = [(7, ''a'', Undefined)]\<rparr>"
    using debounce_state_machine[where st = ?fresh and ev = "''a''" and ?t0.0 = 0 and ts = "[30, 80]"
        and T = 180]
    by (simp add: handlers_of_def)
  show "pulses ''a'' [0, 50, 100, 150, 200, 250, 300, 350, 400, 450, 500, 550, 600, 650, 700,
                     750, 800, 850, 900, 950, 1000, 1050] ?fresh
     = \<lparr>publishTimers = [], listeners = [(''a'', 7)], emits = [(1050, ''a'', Undefined)],
        delivered = [(7, ''a'', Undefined)]\<rparr>"
    using debounce_state_machine[where st = ?fresh and ev = "''a''" and ?t0.0 = 0
        and ts = "[50, 100, 150, 200, 250, 300, 350, 400, 450, 500, 550, 600, 650, 700,
                     750, 800, 850, 900, 950, 1000]" and t' = 1050]
    by (simp add: handlers_of_def)
qed

text \<open>
  Against C6 as stated: with one pulse every 50 ms for 1200 ms, nothing has
  been emitted when the first 1000 ms are over; the only emission of the whole
  burst is the forced one at 1050 ms.
\<close>

theorem burst_1200ms_counterexample:
  "emits (pulses ''a'' [0, 50, 100, 150, 200, 250, 300, 350, 400, 450, 500, 550, 600, 650, 700,
                       750, 800, 850, 900, 950, 1000]
            \<lparr>publishTimers = [], listeners = [(''a'', 7)], emits = [], delivered = []\<rparr>) = []
   \<and> emits (pulses ''a'' [0, 50, 100, 150, 200, 250, 300, 350, 400, 450, 500, 550, 600, 650, 700,
                       750, 800, 850, 900, 950, 1000, 1050, 1100, 1150, 1200]
            \<lparr>publishTimers = [], listeners = [(''a'', 7)], emits = [], delivered = []\<rparr>)
       = [(1050, ''a'', Undefined)]"
  by (simp add: pulses_def scheduleDataEvent_def advance_def due_def fire_timer_def emit_def
      handlers_of_def Let_def)

text \<open>
  Claim C7, as the code has it.  For an envelope on the broadcast channel with
  a non-empty account key: a truthy payload is emitted at once, exactly one
  \<open>emit\<close> that calls each handler registered for the key once and leaves the
  pending timers alone; an absent or falsy payload goes to
  \<open>scheduleDataEvent\<close>.  The handler returns normally except for the key
  \<open>error\<close> with no listener registered for it, where the \<open>emit\<close> (the direct
  one, or the one of a forced \<open>fire\<close>) raises.
\<close>

theorem payload_delivery:
  "channel = chan \<and> e data = Some k \<and> k \<noteq> [] \<longrightarrow>
     (truthy_j (p data) \<longrightarrow>
        on_message chan now channel (Json (PObject data)) st =
          (if k = ''error'' \<and> handlers_of k st = [] then Some UnhandledErrorEvent else None,
           st\<lparr>emits := emits st @ [(now, k, p data)],
              delivered := delivered st @ map (\<lambda>h. (h, k, p data)) (handlers_of k st)\<rparr>))
     \<and> (\<not> truthy_j (p data) \<longrightarrow>
        on_message chan now channel (Json (PObject data)) st =
          (if k = ''error'' \<and> handlers_of k st = []
              \<and> (case map_of (publishTimers st) k of
                    None \<Rightarrow> False | Some d \<Rightarrow> t_initial d < now - 1000)
           then Some UnhandledErrorEvent else None,
           scheduleDataEvent now k st))"
  by (auto simp add: on_message_def truthy_s_def emit_def emit_throws_def
      scheduleDataEvent_throws_def split: option.splits)

text \<open>
  C7 for an object payload and for no payload, with two handlers on the key,
  and for a payload addressed to the key \<open>error\<close>, which has no listener.
\<close>

theorem payload_delivery_witness:
  "on_message ''imap'' 40 ''imap'' (Json (PObject \<lparr>e = Some ''a'', p = Object ''EXISTS''\<rparr>))
      \<lparr>publishTimers = [], listeners = [(''a'', 7), (''b'', 8), (''a'', 9)], emits = [], delivered = []\<rparr>
     = (None, \<lparr>publishTimers = [], listeners = [(''a'', 7), (''b'', 8), (''a'', 9)],
            emits = [(40, ''a'', Object ''EXISTS'')],
            delivered = [(7, ''a'', Object ''EXISTS''), (9, ''a'', Object ''EXISTS'')]\<rparr>)
   \<and> on_message ''imap'' 40 ''imap'' (Json (PObject \<lparr>e = Some ''a'', p = Undefined\<rparr>))
      \<lparr>publishTimers = [], listeners = [(''a'', 7), (''b'', 8), (''a'', 9)], emits = [], delivered = []\<rparr>
     = (None, \<lparr>publishTimers = [(''a'', \<lparr>t_count = 1, t_initial = 40, t_timeout = Some 140\<rparr>)],
            listeners = [(''a'', 7), (''b'', 8), (''a'', 9)], emits = [], delivered = []\<rparr>)
   \<and> on_message ''imap'' 40 ''imap'' (Json (PObject \<lparr>e = Some ''error'', p = Object ''EXISTS''\<rparr>))
      \<lparr>publishTimers = [], listeners = [(''a'', 7)], emits = [], delivered = []\<rparr>
     = (Some UnhandledErrorEvent,
        \<lparr>publishTimers = [], listeners = [(''a'', 7)],
            emits = [(40, ''error'', Object ''EXISTS'')], delivered = []\<rparr>)"
  using payload_delivery[where chan = "''imap''" and channel = "''imap''" and k = "''a''" and now = 40
      and data = "\<lparr>e = Some ''a'', p = Object ''EXISTS''\<rparr>"
      and st = "\<lparr>publishTimers = [], listeners = [(''a'', 7), (''b'', 8), (''a'', 9)], emits = [], delivered = []\<rparr>"]
    payload_delivery[where chan = "''imap''" and channel = "''imap''" and k = "''a''" and now = 40
      and data = "\<lparr>e = Some ''a'', p = Undefined\<rparr>"
      and st = "\<lparr>publishTimers = [], listeners = [(''a'', 7), (''b'', 8), (''a'', 9)], emits = [], delivered = []\<rparr>"]
    payload_delivery[where chan = "''imap''" and channel = "''imap''" and k = "''error''" and now = 40
      and data = "\<lparr>e = Some ''error'', p = Object ''EXISTS''\<rparr>"
      and st = "\<lparr>publishTimers = [], listeners = [(''a'', 7)], emits = [], delivered = []\<rparr>"]
  by (simp add: handlers_of_def scheduleDataEvent_def)

text \<open>
  Against C7 as stated: the envelope \<open>{"e": "a", "p": false}\<close> carries a payload,
  yet nothing is emitted and a debounce record is created.
\<close>

theorem falsy_payload_counterexample:
  "on_message ''imap'' 40 ''imap'' (Json (PObject \<lparr>e = Some ''a'', p = Bool False\<rparr>))
      \<lparr>publishTimers = [], listeners = [(''a'', 7)], emits = [], delivered = []\<rparr>
     = (None, \<lparr>publishTimers = [(''a'', \<lparr>t_count = 1, t_initial = 40, t_timeout = Some 140\<rparr>)],
            listeners = [(''a'', 7)], emits = [], delivered = []\<rparr>)"
  by (simp add: on_message_def truthy_s_def scheduleDataEvent_def scheduleDataEvent_throws_def)

text \<open>
  Claim C9.  \<open>releaseConnection\<close> never raises and calls \<open>fn(null, true)\<close>
  exactly once, whatever the input and whatever fails; so does a second call
  on the world the first one left.  For a session without alias id nothing
  changes.  A failing \<open>pragma\<close> or \<open>close\<close> (also: an already closed database)
  and a rejected pipeline are logged.
\<close>

theorem releaseConnection_always_succeeds:
  "fst (releaseConnection f env data w) = Inr [Callback None True]
   \<and> fst (releaseConnection f' env data (snd (releaseConnection f env data w))) = Inr [Callback None True]
   \<and> (\<not> truthy_s (alias_id data) \<longrightarrow> snd (releaseConnection f env data w) = w)
   \<and> (truthy_s (alias_id data) \<and> db_close_is_function data
        \<and> (\<not> db_open w \<or> pragma_throws f \<or> close_throws f)
      \<longrightarrow> DbError \<in> set (rlog (snd (releaseConnection f env data w))))
   \<and> (truthy_s (alias_id data) \<and> exec_rejects f
      \<longrightarrow> PipelineError \<in> set (rlog (snd (releaseConnection f env data w))))"
proof -
  have ok: "fst (releaseConnection g env data v) = Inr [Callback None True]" for g v
    by (simp add: releaseConnection_def Let_def)
  have noop: "\<not> truthy_s (alias_id data) \<longrightarrow> snd (releaseConnection f env data w) = w"
    by (simp add: releaseConnection_def)
  have dbl: "truthy_s (alias_id data) \<and> db_close_is_function data
        \<and> (\<not> db_open w \<or> pragma_throws f \<or> close_throws f)
      \<longrightarrow> DbError \<in> set (rlog (snd (releaseConnection f env data w)))"
    by (auto simp: releaseConnection_def Let_def optimize_and_close_def exec_pipeline_def
        pexpire_def decr_def)
  have pl: "truthy_s (alias_id data) \<and> exec_rejects f
      \<longrightarrow> PipelineError \<in> set (rlog (snd (releaseConnection f env data w)))"
    by (auto simp: releaseConnection_def Let_def exec_pipeline_def)
  show ?thesis using ok[of f w] ok[of f' "snd (releaseConnection f env data w)"] noop dbl pl
    by blast
qed

text \<open>C9 on an already closed session with a rejecting pipeline, and on an unauthenticated one.\<close>

theorem releaseConnection_always_succeeds_witness:
  "releaseConnection \<lparr>pragma_throws = False, close_throws = False, exec_rejects = True\<rparr> ''production''
      \<lparr>alias_id = Some ''a1'', domain_id = Some ''d1'', db_close_is_function = True\<rparr>
      \<lparr>db_open = False, counters = (\<lambda>_. 0), expires = Map.empty, rlog = []\<rparr>
     = (Inr [Callback None True],
        \<lparr>db_open = False, counters = (\<lambda>_. 0), expires = Map.empty, rlog = [DbError, PipelineError]\<rparr>)
   \<and> releaseConnection \<lparr>pragma_throws = False, close_throws = False, exec_rejects = False\<rparr> ''production''
      \<lparr>alias_id = None, domain_id = None, db_close_is_function = True\<rparr>
      \<lparr>db_open = True, counters = (\<lambda>_. 0), expires = Map.empty, rlog = []\<rparr>
     = (Inr [Callback None True],
        \<lparr>db_open = True, counters = (\<lambda>_. 0), expires = Map.empty, rlog = []\<rparr>)"
  using releaseConnection_always_succeeds[where f = "\<lparr>pragma_throws = False, close_throws = False, exec_rejects = True\<rparr>"
      and env = "''production''"
      and data = "\<lparr>alias_id = Some ''a1'', domain_id = Some ''d1'', db_close_is_function = True\<rparr>"
      and w = "\<lparr>db_open = False, counters = (\<lambda>_. 0), expires = Map.empty, rlog = []\<rparr>"]
    releaseConnection_always_succeeds[where f = "\<lparr>pragma_throws = False, close_throws = False, exec_rejects = False\<rparr>"
      and env = "''production''"
      and data = "\<lparr>alias_id = None, domain_id = None, db_close_is_function = True\<rparr>"
      and w = "\<lparr>db_open = True, counters = (\<lambda>_. 0), expires = Map.empty, rlog = []\<rparr>"]
  by (simp add: releaseConnection_def Let_def optimize_and_close_def exec_pipeline_def truthy_s_def)

section \<open>FetchPipeline: getMessages and onFetch\<close>

subsection \<open>Data\<close>

definition MAX_PAGE_SIZE :: nat where
  "MAX_PAGE_SIZE = 2500"

definition MAX_BULK_WRITE_SIZE :: nat where
  "MAX_BULK_WRITE_SIZE = 150"

text \<open>The flag \<open>\Seen\<close>.\<close>

definition Seen :: string where
  "Seen = CHR 0x5C # ''Seen''"

text \<open>
  A row of the \<open>Messages\<close> table as the SQL query sees it, and the message
  \<open>convertResult\<close> makes of it; \<open>fm_flags\<close> is absent when flags were not
  projected.
\<close>

record row =
  r_id :: nat
  r_uid :: nat
  r_mailbox :: nat
  r_modseq :: nat
  r_flags :: "string list"

record fmessage =
  fm_id :: nat
  fm_uid :: nat
  fm_flags :: "string list option"

record options =
  opt_messages :: "nat list"
  markAsSeen :: bool
  metadataOnly :: bool
  changedSince :: "nat option"
  flagsExist :: bool
  idateExist :: bool
  bodystructureExist :: bool
  rfc822sizeExist :: bool
  envelopeExist :: bool

record projection =
  p_flags :: bool
  p_idate :: bool
  p_bodystructure :: bool
  p_size :: bool
  p_envelope :: bool
  p_mimeTree :: bool

text \<open>The base query \<open>{mailbox, modseq: {$gt}}\<close>; either key may be missing.\<close>

text \<open>One \<open>updateOne\<close> of the Seen batch: its filter (the update itself is constant).\<close>

record flag_update =
  op_id :: nat
  op_mailbox :: nat
  op_uid :: nat

record fquery =
  q_mailbox :: "nat option"
  q_modseq_gt :: "nat option"

record fsession =
  uidList :: "nat list"

text \<open>The accumulators \<open>getMessages\<close> takes from \<open>opts\<close> and returns.\<close>

record results =
  entries :: "entry list"
  bulkWrite :: "flag_update list"
  successful :: bool
  lastUid :: "nat option"
  rowCount :: int
  totalBytes :: int

text \<open>The other members of \<open>opts\<close>; \<open>o_alias\<close> is \<open>alias.id\<close>.\<close>

record opts =
  o_options :: options
  o_projection :: projection
  o_query :: "fquery option"
  o_mailbox :: mailbox
  o_alias :: "string option"
  o_attachmentStorage :: bool

datatype ferror =
    QueryCannotBeEmpty
  | MailboxMissingFromQuery
  | AttachmentStorageMissing
  | RowCountInvalid
  | TotalBytesInvalid
  | ServerShutdownError
  | SocketError
  | BulkWriteError
  | AliasIdMissing
  | RefreshSessionError

datatype flog_entry = MessageNotFetched | FlushFailed | AddEntriesFailed | FireFailed | MailboxNotFound

record response =
  resp_uid :: nat
  resp_compiled :: string

text \<open>
  What a fetch does to the outside: the responses written to
  \<open>session.writeStream\<close>, the batches handed to \<open>Messages.bulkWrite\<close>, the
  entries handed to \<open>server.notifier.addEntries\<close>, the account keys handed to
  \<open>server.notifier.fire\<close> and what was logged as fatal or error, each in call
  order; \<open>iterations\<close> counts the rows the loops have looked at and
  \<open>queries\<close> the queries issued, so that the environment can answer by call.
\<close>

record fworld =
  written :: "response list"
  bulk_calls :: "flag_update list list"
  add_calls :: "entry list list"
  fired :: "string list"
  flog :: "flog_entry list"
  iterations :: nat
  queries :: nat

text \<open>
  The collaborators.  \<open>dbAll q\<close> is the content of the \<open>Messages\<close> table when
  query number \<open>q\<close> runs; \<open>convertResult\<close> (helpers/mongoose-to-sqlite) may
  yield nothing; \<open>checkRangeQuery\<close> (wildduck tools) builds the condition on
  uid, \<open>None\<close> standing for its result \<open>false\<close>; \<open>closeTimeout i\<close> and
  \<open>socketOpen i\<close> are \<open>server._closeTimeout\<close> and the state of the socket
  when row number \<open>i\<close> is handled; \<open>bulkWrite_throws n\<close> and
  \<open>addEntries_throws n\<close> tell whether call number \<open>n\<close> throws; \<open>compiler\<close> is
  the compiled response for a message.
\<close>

record fenv =
  dbAll :: "nat \<Rightarrow> row list"
  convertResult :: "projection \<Rightarrow> row \<Rightarrow> fmessage option"
  checkRangeQuery :: "nat list \<Rightarrow> (nat \<Rightarrow> bool) option"
  closeTimeout :: "nat \<Rightarrow> bool"
  socketOpen :: "nat \<Rightarrow> bool"
  bulkWrite_throws :: "nat \<Rightarrow> bool"
  addEntries_throws :: "nat \<Rightarrow> bool"
  compiler :: "fmessage \<Rightarrow> string"
  refreshSession_throws :: bool
  session_alias :: "string option"
  findMailbox :: "nat \<Rightarrow> mailbox option"
  attachmentStorage :: bool

subsection \<open>The page query\<close>

datatype uid_filter = Unset | IsFalse | Cond "nat \<Rightarrow> bool"

text \<open>\<open>pageQuery.uid\<close> before the \<open>lastUid\<close> test.\<close>

definition pageQuery_uid :: "fenv \<Rightarrow> options \<Rightarrow> bool \<Rightarrow> uid_filter" where
  "pageQuery_uid env options queryAll =
     (if queryAll then Unset
      else case checkRangeQuery env (opt_messages options) of
             None \<Rightarrow> IsFalse
           | Some c \<Rightarrow> Cond c)"

text \<open>
  The condition on uid after \<open>if (lastUid) {...}\<close>: with a truthy \<open>lastUid\<close>
  a truthy range is kept next to \<open>uid > lastUid\<close>, anything else is replaced
  by \<open>uid > lastUid\<close>.
\<close>

definition uid_condition :: "uid_filter \<Rightarrow> nat option \<Rightarrow> nat \<Rightarrow> bool" where
  "uid_condition flt last_uid u =
     (if truthy last_uid
      then (case flt of Cond c \<Rightarrow> c u \<and> u > the last_uid | _ \<Rightarrow> u > the last_uid)
      else (case flt of Cond c \<Rightarrow> c u | Unset \<Rightarrow> True | IsFalse \<Rightarrow> False))"

definition condition :: "fquery \<Rightarrow> uid_filter \<Rightarrow> nat option \<Rightarrow> row \<Rightarrow> bool" where
  "condition query flt last_uid r =
     ((case q_mailbox query of None \<Rightarrow> True | Some m \<Rightarrow> r_mailbox r = m)
      \<and> (case q_modseq_gt query of None \<Rightarrow> True | Some c \<Rightarrow> r_modseq r > c)
      \<and> uid_condition flt last_uid (r_uid r))"

text \<open>\<open>select ... from Messages where condition order by uid\<close>, all rows at once.\<close>

definition page_rows :: "fenv \<Rightarrow> fquery \<Rightarrow> uid_filter \<Rightarrow> nat option \<Rightarrow> nat \<Rightarrow> row list" where
  "page_rows env query flt last_uid q =
     sort_key r_uid (filter (condition query flt last_uid) (dbAll env q))"

subsection \<open>The row loop\<close>

text \<open>\<open>server.notifier.fire(alias.id)\<close>: throws on a missing id, else publishes.\<close>

definition fire :: "string option \<Rightarrow> fworld \<Rightarrow> ferror + fworld" where
  "fire aliasId w =
     (if \<not> truthy_s aliasId then Inl AliasIdMissing
      else Inr (w\<lparr>fired := fired w @ [the aliasId]\<rparr>))"

text \<open>
  The block \<open>if (bulkWrite.length >= MAX_BULK_WRITE_SIZE) {...}\<close>, entered with
  a full batch.  The first component tells whether the loop is left
  (\<open>break\<close>).
\<close>

definition flush :: "fenv \<Rightarrow> opts \<Rightarrow> results \<Rightarrow> fworld \<Rightarrow> bool \<times> results \<times> fworld" where
  "flush env P acc w =
     (let n = length (bulk_calls w);
          w1 = w\<lparr>bulk_calls := bulk_calls w @ [bulkWrite acc]\<rparr>
      in if bulkWrite_throws env n
         then (True, acc\<lparr>entries := [], bulkWrite := [], successful := False\<rparr>,
               w1\<lparr>flog := flog w1 @ [FlushFailed]\<rparr>)
         else
           let acc1 = acc\<lparr>bulkWrite := []\<rparr>
           in if length (entries acc1) \<ge> MAX_BULK_WRITE_SIZE
              then
                (let k = length (add_calls w1);
                     w2 = w1\<lparr>add_calls := add_calls w1 @ [entries acc1]\<rparr>
                 in if addEntries_throws env k
                    then (False, acc1, w2\<lparr>flog := flog w2 @ [AddEntriesFailed]\<rparr>)
                    else (case fire (o_alias P) w2 of
                            Inl err \<Rightarrow> (False, acc1\<lparr>entries := []\<rparr>, w2\<lparr>flog := flog w2 @ [FireFailed]\<rparr>)
                          | Inr w3 \<Rightarrow> (False, acc1\<lparr>entries := []\<rparr>, w3)))
              else (False, acc1, w1))"

text \<open>Format, compile and write the response of one message; count it.\<close>

definition respond :: "fenv \<Rightarrow> fmessage \<Rightarrow> results \<Rightarrow> fworld \<Rightarrow> results \<times> fworld" where
  "respond env message acc w =
     (let compiled = compiler env message
      in (acc\<lparr>rowCount := rowCount acc + 1,
               totalBytes := totalBytes acc + int (length compiled)\<rparr>,
          w\<lparr>written := written w @ [\<lparr>resp_uid = fm_uid message, resp_compiled = compiled\<rparr>]\<rparr>))"

text \<open>\<open>options.markAsSeen && message.flags && !message.flags.includes('\\Seen')\<close>\<close>

definition mark_as_seen :: "options \<Rightarrow> fmessage \<Rightarrow> bool" where
  "mark_as_seen options message =
     (markAsSeen options \<and> (case fm_flags message of None \<Rightarrow> False | Some fl \<Rightarrow> Seen \<notin> set fl))"

definition update_op :: "opts \<Rightarrow> fmessage \<Rightarrow> flag_update" where
  "update_op P message =
     \<lparr>op_id = fm_id message, op_mailbox = mb_id (o_mailbox P), op_uid = fm_uid message\<rparr>"

text \<open>
  One turn of \<open>for (const result of messages)\<close>: either the loop goes on with
  the new \<open>count\<close>, accumulators and world, or the function is left, by
  \<open>break\<close> (the accumulators are returned), by an exception, or through the
  recursive call \<open>resume\<close>, whose result (if it returns) is returned.
\<close>

datatype step = Next nat results fworld | Stop "((ferror + results) \<times> fworld) option"

definition fetch_row ::
  "fenv \<Rightarrow> (results \<Rightarrow> fworld \<Rightarrow> ((ferror + results) \<times> fworld) option) \<Rightarrow> opts \<Rightarrow> fsession \<Rightarrow> bool
     \<Rightarrow> row \<Rightarrow> nat \<Rightarrow> results \<Rightarrow> fworld \<Rightarrow> step" where
  "fetch_row env resume P sess queryAll result count acc w0 =
     (let message = convertResult env (o_projection P) result;
          i = iterations w0;
          w = w0\<lparr>iterations := i + 1\<rparr>
      in if closeTimeout env i then Stop (Some (Inl ServerShutdownError, w))
         else if \<not> socketOpen env i then Stop (Some (Inl SocketError, w))
         else case message of
           None \<Rightarrow>
             (let w1 = w\<lparr>flog := flog w @ [MessageNotFetched]\<rparr>
              in if count = MAX_PAGE_SIZE then Stop (resume acc w1)
                 else Stop (Some (Inr acc, w1)))
         | Some m \<Rightarrow>
             (let count1 = count + 1;
                  acc1 = acc\<lparr>lastUid := Some (fm_uid m)\<rparr>
              in if queryAll \<and> fm_uid m \<notin> set (uidList sess) then Next count1 acc1 w
                 else
                   let mas = mark_as_seen (o_options P) m;
                       m1 = (if mas then m\<lparr>fm_flags := Some (Seen # the (fm_flags m))\<rparr> else m);
                       (acc2, w2) = respond env m1 acc1 w
                   in if metadataOnly (o_options P) \<and> \<not> mas then Next count1 acc2 w2
                      else
                        let acc3 = (if \<not> mas
                                    then acc2\<lparr>bulkWrite := bulkWrite acc2 @ [update_op P m1]\<rparr>
                                    else acc2)
                        in if length (bulkWrite acc3) \<ge> MAX_BULK_WRITE_SIZE
                           then (case flush env P acc3 w2 of
                                   (True, a, w') \<Rightarrow> Stop (Some (Inr a, w'))
                                 | (False, a, w') \<Rightarrow> Next count1 a w')
                           else Next count1 acc3 w2))"

fun fetch_rows ::
  "fenv \<Rightarrow> (results \<Rightarrow> fworld \<Rightarrow> ((ferror + results) \<times> fworld) option) \<Rightarrow> opts \<Rightarrow> fsession \<Rightarrow> bool
     \<Rightarrow> row list \<Rightarrow> nat \<Rightarrow> results \<Rightarrow> fworld \<Rightarrow> step" where
  "fetch_rows env resume P sess queryAll [] count acc w = Next count acc w"
| "fetch_rows env resume P sess queryAll (result # rest) count acc w =
     (case fetch_row env resume P sess queryAll result count acc w of
        Next count' acc' w' \<Rightarrow> fetch_rows env resume P sess queryAll rest count' acc' w'
      | Stop r \<Rightarrow> Stop r)"

subsection \<open>getMessages and onFetch\<close>

text \<open>
  \<open>getMessages\<close> calls itself when a row is missing after exactly
  \<open>MAX_PAGE_SIZE\<close> rows; the first argument bounds the depth of these calls,
  and \<open>None\<close> is a call that needs more.
\<close>

primrec getMessages ::
  "nat \<Rightarrow> fenv \<Rightarrow> opts \<Rightarrow> fsession \<Rightarrow> results \<Rightarrow> fworld \<Rightarrow> ((ferror + results) \<times> fworld) option" where
  "getMessages 0 env P sess acc w = None"
| "getMessages (Suc n) env P sess acc w =
     (case o_query P of
        None \<Rightarrow> Some (Inl QueryCannotBeEmpty, w)
      | Some query \<Rightarrow>
          if q_mailbox query = None \<and> q_modseq_gt query = None then Some (Inl QueryCannotBeEmpty, w)
          else if q_mailbox query = None then Some (Inl MailboxMissingFromQuery, w)
          else if \<not> o_attachmentStorage P then Some (Inl AttachmentStorageMissing, w)
          else if rowCount acc < 0 then Some (Inl RowCountInvalid, w)
          else if totalBytes acc < 0 then Some (Inl TotalBytesInvalid, w)
          else
            let queryAll = (length (opt_messages (o_options P)) = length (uidList sess));
                flt = pageQuery_uid env (o_options P) queryAll;
                rows = page_rows env query flt (lastUid acc) (queries w);
                w1 = w\<lparr>queries := queries w + 1\<rparr>
            in case fetch_rows env (getMessages n env P sess) P sess queryAll rows 0 acc w1 of
                 Next count acc' w' \<Rightarrow> Some (Inr acc', w')
               | Stop r \<Rightarrow> r)"

datatype fcallback = FnError ferror | FnResponse string | FnDone bool int int

definition make_projection :: "options \<Rightarrow> projection" where
  "make_projection options =
     \<lparr>p_flags = flagsExist options, p_idate = idateExist options,
      p_bodystructure = bodystructureExist options, p_size = rfc822sizeExist options,
      p_envelope = envelopeExist options, p_mimeTree = (\<not> metadataOnly options)\<rparr>"

text \<open>The end of \<open>onFetch\<close> after \<open>getMessages\<close> has returned \<open>results\<close>.\<close>

definition finish_fetch :: "fenv \<Rightarrow> results \<Rightarrow> fworld \<Rightarrow> fcallback \<times> fworld" where
  "finish_fetch env res w =
     (let n = length (bulk_calls w);
          w1 = (if bulkWrite res \<noteq> [] then w\<lparr>bulk_calls := bulk_calls w @ [bulkWrite res]\<rparr> else w)
      in if bulkWrite res \<noteq> [] \<and> bulkWrite_throws env n then (FnError BulkWriteError, w1)
         else
           let w3 = (if entries res \<noteq> []
                     then (let k = length (add_calls w1);
                               w2 = w1\<lparr>add_calls := add_calls w1 @ [entries res]\<rparr>
                           in if addEntries_throws env k
                              then w2\<lparr>flog := flog w2 @ [AddEntriesFailed]\<rparr>
                              else (case fire (session_alias env) w2 of
                                      Inl err \<Rightarrow> w2\<lparr>flog := flog w2 @ [FireFailed]\<rparr>
                                    | Inr w' \<Rightarrow> w'))
                     else w1)
           in (FnDone (successful res) (rowCount res) (totalBytes res), w3))"

text \<open>The query, the \<open>opts\<close> and the initial accumulators \<open>onFetch\<close> builds.\<close>

definition fetch_query :: "options \<Rightarrow> mailbox \<Rightarrow> fquery" where
  "fetch_query options mailbox =
     \<lparr>q_mailbox = Some (mb_id mailbox),
      q_modseq_gt = (if truthy (changedSince options) then changedSince options else None)\<rparr>"

definition fetch_opts :: "fenv \<Rightarrow> options \<Rightarrow> mailbox \<Rightarrow> opts" where
  "fetch_opts env options mailbox =
     \<lparr>o_options = options, o_projection = make_projection options,
      o_query = Some (fetch_query options mailbox),
      o_mailbox = mailbox, o_alias = session_alias env,
      o_attachmentStorage = attachmentStorage env\<rparr>"

definition initial_results :: results where
  "initial_results =
     \<lparr>entries = [], bulkWrite = [], successful = True, lastUid = None,
      rowCount = 0, totalBytes = 0\<rparr>"

definition onFetch ::
  "nat \<Rightarrow> fenv \<Rightarrow> nat \<Rightarrow> options \<Rightarrow> fsession \<Rightarrow> fworld \<Rightarrow> (fcallback \<times> fworld) option" where
  "onFetch n env mailboxId options sess w =
     (if refreshSession_throws env then Some (FnError RefreshSessionError, w)
      else case findMailbox env mailboxId of
        None \<Rightarrow> Some (FnResponse ''NONEXISTENT'', w\<lparr>flog := flog w @ [MailboxNotFound]\<rparr>)
      | Some mailbox \<Rightarrow>
          (case getMessages n env (fetch_opts env options mailbox) sess initial_results w of
             None \<Rightarrow> None
           | Some (Inl err, w1) \<Rightarrow> Some (FnError err, w1)
           | Some (Inr res, w1) \<Rightarrow> Some (finish_fetch env res w1)))"

subsection \<open>Runs without faults\<close>

text \<open>
  Notions for stating what a pass does.  A row is \<open>streamed\<close> when it converts
  and is not skipped by the snapshot test; \<open>response_of\<close> is the response
  written for it; it \<open>queues\<close> a flag update when, in addition, the loop reaches
  \<open>bulkWrite.push\<close> for it (it is not answered early as metadata and is not
  being marked as seen in the response).  \<open>no_abort\<close>: the server never shuts
  down and the socket stays open; \<open>no_flush_failure\<close>: \<open>Messages.bulkWrite\<close>
  never throws.
\<close>

definition converted :: "fenv \<Rightarrow> opts \<Rightarrow> row \<Rightarrow> fmessage option" where
  "converted env P r = convertResult env (o_projection P) r"

definition streamed :: "fenv \<Rightarrow> opts \<Rightarrow> fsession \<Rightarrow> bool \<Rightarrow> row \<Rightarrow> bool" where
  "streamed env P sess queryAll r =
     (case converted env P r of
        None \<Rightarrow> False
      | Some m \<Rightarrow> \<not> (queryAll \<and> fm_uid m \<notin> set (uidList sess)))"

definition response_of :: "fenv \<Rightarrow> opts \<Rightarrow> row \<Rightarrow> response" where
  "response_of env P r =
     (let m = the (converted env P r);
          m1 = (if mark_as_seen (o_options P) m then m\<lparr>fm_flags := Some (Seen # the (fm_flags m))\<rparr> else m)
      in \<lparr>resp_uid = fm_uid m1, resp_compiled = compiler env m1\<rparr>)"

definition queues :: "fenv \<Rightarrow> opts \<Rightarrow> fsession \<Rightarrow> bool \<Rightarrow> row \<Rightarrow> bool" where
  "queues env P sess queryAll r =
     (streamed env P sess queryAll r \<and> \<not> mark_as_seen (o_options P) (the (converted env P r))
      \<and> \<not> metadataOnly (o_options P))"

definition no_abort :: "fenv \<Rightarrow> bool" where
  "no_abort env = (\<forall>i. \<not> closeTimeout env i \<and> socketOpen env i)"


text \<open>The \<open>k\<close> calls of \<open>Messages.bulkWrite\<close> from call number \<open>n\<close> on do not throw.\<close>

definition calls_ok :: "fenv \<Rightarrow> nat \<Rightarrow> nat \<Rightarrow> bool" where
  "calls_ok env n k = (\<forall>j<k. \<not> bulkWrite_throws env (n + j))"


lemma flush_ok:
  assumes "\<not> bulkWrite_throws env (length (bulk_calls w))"
  shows "\<exists>a w'. flush env P acc w = (False, a, w') \<and> bulkWrite a = []
           \<and> bulk_calls w' = bulk_calls w @ [bulkWrite acc] \<and> written w' = written w
           \<and> iterations w' = iterations w \<and> queries w' = queries w
           \<and> lastUid a = lastUid acc \<and> rowCount a = rowCount acc \<and> totalBytes a = totalBytes acc
           \<and> successful a = successful acc
           \<and> (length (entries acc) < 150 \<longrightarrow> entries a = entries acc \<and> add_calls w' = add_calls w
                 \<and> fired w' = fired w \<and> flog w' = flog w)"
  using assms
  by (simp add: flush_def Let_def fire_def MAX_BULK_WRITE_SIZE_def split: sum.splits)

lemma fetch_row_ok:
  assumes na: "no_abort env"
    and nf: "calls_ok env (length (bulk_calls w))
               ((length (bulkWrite acc) + (if queues env P sess qa r then 1 else 0)) div 150)"
    and cv: "converted env P r = Some m"
    and lt: "length (bulkWrite acc) < 150"
  shows "\<exists>a w'. fetch_row env resume P sess qa r c acc w = Next (c + 1) a w'
           \<and> written w' = written w @ (if streamed env P sess qa r then [response_of env P r] else [])
           \<and> length (bulkWrite a) = (length (bulkWrite acc) + (if queues env P sess qa r then 1 else 0)) mod 150
           \<and> map length (bulk_calls w') = map length (bulk_calls w)
                 @ replicate ((length (bulkWrite acc) + (if queues env P sess qa r then 1 else 0)) div 150) 150
           \<and> iterations w' = iterations w + 1 \<and> queries w' = queries w
           \<and> lastUid a = Some (fm_uid m)
           \<and> rowCount a = rowCount acc + (if streamed env P sess qa r then 1 else 0)
           \<and> totalBytes a \<ge> totalBytes acc
           \<and> successful a = successful acc
           \<and> (length (entries acc) < 150 \<longrightarrow> entries a = entries acc \<and> add_calls w' = add_calls w
                 \<and> fired w' = fired w \<and> flog w' = flog w)"
proof -
  have ab: "\<not> closeTimeout env (iterations w)" "socketOpen env (iterations w)"
    using na by (simp_all add: no_abort_def)
  have cv': "convertResult env (o_projection P) r = Some m" using cv by (simp add: converted_def)
  let ?w = "w\<lparr>iterations := iterations w + 1\<rparr>"
  let ?acc1 = "acc\<lparr>lastUid := Some (fm_uid m)\<rparr>"
  show ?thesis
  proof (cases "qa \<and> fm_uid m \<notin> set (uidList sess)")
    case True
    then have s: "\<not> streamed env P sess qa r" "\<not> queues env P sess qa r"
      using cv by (simp_all add: streamed_def queues_def)
    have "fetch_row env resume P sess qa r c acc w = Next (c + 1) ?acc1 ?w"
      using True ab cv' by (simp add: fetch_row_def Let_def)
    then show ?thesis using s lt by simp
  next
    case False
    then have s: "streamed env P sess qa r" using cv by (simp add: streamed_def)
    let ?mas = "mark_as_seen (o_options P) m"
    let ?m1 = "if ?mas then m\<lparr>fm_flags := Some (Seen # the (fm_flags m))\<rparr> else m"
    let ?acc2 = "fst (respond env ?m1 ?acc1 ?w)"
    let ?w2 = "snd (respond env ?m1 ?acc1 ?w)"
    have r: "response_of env P r = \<lparr>resp_uid = fm_uid ?m1, resp_compiled = compiler env ?m1\<rparr>"
      using cv by (simp add: response_of_def Let_def)
    have w2: "written ?w2 = written w @ [response_of env P r]" "bulk_calls ?w2 = bulk_calls w"
      "iterations ?w2 = iterations w + 1" "queries ?w2 = queries w"
      "add_calls ?w2 = add_calls w" "fired ?w2 = fired w" "flog ?w2 = flog w"
      by (simp_all add: respond_def Let_def r)
    have a2: "bulkWrite ?acc2 = bulkWrite acc" "lastUid ?acc2 = Some (fm_uid m)"
      "rowCount ?acc2 = rowCount acc + 1" "totalBytes ?acc2 \<ge> totalBytes acc"
      "successful ?acc2 = successful acc" "entries ?acc2 = entries acc"
      by (simp_all add: respond_def Let_def)
    show ?thesis
    proof (cases "metadataOnly (o_options P) \<and> \<not> ?mas")
      case True
      then have q: "\<not> queues env P sess qa r" using cv by (simp add: queues_def)
      have "fetch_row env resume P sess qa r c acc w = Next (c + 1) ?acc2 ?w2"
        using True False ab cv' by (auto simp add: fetch_row_def Let_def case_prod_beta)
      then show ?thesis using s q lt w2 a2 by simp
    next
      case nm: False
      show ?thesis
      proof (cases ?mas)
        case True
        then have q: "\<not> queues env P sess qa r" using cv by (simp add: queues_def)
        have "fetch_row env resume P sess qa r c acc w = Next (c + 1) ?acc2 ?w2"
          using True nm False ab cv' lt a2(1)
          by (auto simp add: fetch_row_def Let_def MAX_BULK_WRITE_SIZE_def case_prod_beta)
        then show ?thesis using s q lt w2 a2 by simp
      next
        case nmas: False
        then have q: "queues env P sess qa r" using cv s nm by (simp add: queues_def)
        let ?acc3 = "?acc2\<lparr>bulkWrite := bulkWrite ?acc2 @ [update_op P ?m1]\<rparr>"
        show ?thesis
        proof (cases "length (bulkWrite acc) = 149")
          case True
          have nt: "\<not> bulkWrite_throws env (length (bulk_calls ?w2))"
            using nf q True w2(2) by (simp add: calls_ok_def)
          from flush_ok[OF nt, of P ?acc3]
          obtain a w' where fl: "flush env P ?acc3 ?w2 = (False, a, w')" "bulkWrite a = []"
            "bulk_calls w' = bulk_calls ?w2 @ [bulkWrite ?acc3]" "written w' = written ?w2"
            "iterations w' = iterations ?w2" "queries w' = queries ?w2"
            "lastUid a = lastUid ?acc3" "rowCount a = rowCount ?acc3" "totalBytes a = totalBytes ?acc3"
            "successful a = successful ?acc3"
            "length (entries ?acc3) < 150 \<longrightarrow> entries a = entries ?acc3 \<and> add_calls w' = add_calls ?w2
                 \<and> fired w' = fired ?w2 \<and> flog w' = flog ?w2" by blast
          have "fetch_row env resume P sess qa r c acc w = Next (c + 1) a w'"
            using nmas nm False ab cv' True a2(1) fl(1)
            by (auto simp add: fetch_row_def Let_def MAX_BULK_WRITE_SIZE_def case_prod_beta)
          then show ?thesis using s q True w2 a2 fl by simp
        next
          case ne: False
          have "fetch_row env resume P sess qa r c acc w = Next (c + 1) ?acc3 ?w2"
            using nmas nm False ab cv' ne lt a2(1)
            by (auto simp add: fetch_row_def Let_def MAX_BULK_WRITE_SIZE_def case_prod_beta)
          then show ?thesis using s q ne lt w2 a2 by simp
        qed
      qed
    qed
  qed
qed


lemma mod_chunks: "((x::nat) mod 150 + y) mod 150 = (x + y) mod 150"
  by (simp add: mod_add_left_eq)

lemma div_chunks: "(x::nat) div 150 + (x mod 150 + y) div 150 = (x + y) div 150"
proof -
  have "x + y = (x mod 150 + y) + (x div 150) * 150" by simp
  then have "(x + y) div 150 = ((x mod 150 + y) + (x div 150) * 150) div 150" by simp
  also have "\<dots> = x div 150 + (x mod 150 + y) div 150"
    by (simp only: div_mult_self1[of 150 "x mod 150 + y" "x div 150"])
  finally show ?thesis by simp
qed

lemma fetch_rows_ok:
  assumes na: "no_abort env"
    and cv: "\<forall>r\<in>set rows. converted env P r \<noteq> None"
    and lt: "length (bulkWrite acc) < 150"
    and nf: "calls_ok env (length (bulk_calls w))
               ((length (bulkWrite acc) + length (filter (queues env P sess qa) rows)) div 150)"
  shows "\<exists>a w'. fetch_rows env resume P sess qa rows c acc w = Next (c + length rows) a w'
           \<and> written w' = written w @ map (response_of env P) (filter (streamed env P sess qa) rows)
           \<and> length (bulkWrite a)
               = (length (bulkWrite acc) + length (filter (queues env P sess qa) rows)) mod 150
           \<and> map length (bulk_calls w') = map length (bulk_calls w)
                 @ replicate ((length (bulkWrite acc) + length (filter (queues env P sess qa) rows)) div 150) 150
           \<and> iterations w' = iterations w + length rows \<and> queries w' = queries w
           \<and> lastUid a = (if rows = [] then lastUid acc
                           else Some (fm_uid (the (converted env P (last rows)))))
           \<and> rowCount a = rowCount acc + int (length (filter (streamed env P sess qa) rows))
           \<and> totalBytes a \<ge> totalBytes acc
           \<and> successful a = successful acc
           \<and> (length (entries acc) < 150 \<longrightarrow> entries a = entries acc \<and> add_calls w' = add_calls w
                 \<and> fired w' = fired w \<and> flog w' = flog w)"
  using cv lt nf
proof (induction rows arbitrary: c acc w)
  case Nil
  then show ?case by simp
next
  case (Cons r rows)
  from Cons.prems(1) obtain m where m: "converted env P r = Some m" by auto
  let ?q = "if queues env P sess qa r then 1 else (0::nat)"
  let ?b = "length (bulkWrite acc)"
  let ?k = "length (filter (queues env P sess qa) rows)"
  have kk: "length (filter (queues env P sess qa) (r # rows)) = ?q + ?k" by simp
  have all: "calls_ok env (length (bulk_calls w)) ((?b + ?q + ?k) div 150)"
    using Cons.prems(3) unfolding kk by (simp add: add.assoc)
  have le: "(?b + ?q) div 150 \<le> (?b + ?q + ?k) div 150" by (rule div_le_mono) simp
  have nfr: "calls_ok env (length (bulk_calls w)) ((?b + ?q) div 150)"
    using all le by (simp add: calls_ok_def)
  from fetch_row_ok[OF na nfr m Cons.prems(2), where resume = resume and c = c]
  obtain a1 w1 where s1: "fetch_row env resume P sess qa r c acc w = Next (c + 1) a1 w1"
    and p1: "written w1 = written w @ (if streamed env P sess qa r then [response_of env P r] else [])"
       "length (bulkWrite a1) = (?b + ?q) mod 150"
       "map length (bulk_calls w1) = map length (bulk_calls w) @ replicate ((?b + ?q) div 150) 150"
       "iterations w1 = iterations w + 1" "queries w1 = queries w"
       "lastUid a1 = Some (fm_uid m)"
       "rowCount a1 = rowCount acc + (if streamed env P sess qa r then 1 else 0)"
       "totalBytes a1 \<ge> totalBytes acc" "successful a1 = successful acc"
       "length (entries acc) < 150 \<longrightarrow> entries a1 = entries acc \<and> add_calls w1 = add_calls w
                 \<and> fired w1 = fired w \<and> flog w1 = flog w"
    by blast
  have lt1: "length (bulkWrite a1) < 150" using p1(2) by simp
  have cv1: "\<forall>r\<in>set rows. converted env P r \<noteq> None" using Cons.prems(1) by simp
  have len1: "length (bulk_calls w1) = length (bulk_calls w) + (?b + ?q) div 150"
  proof -
    have "length (map length (bulk_calls w1))
            = length (map length (bulk_calls w) @ replicate ((?b + ?q) div 150) (150::nat))"
      by (simp only: p1(3))
    then show ?thesis by simp
  qed
  have nf1: "calls_ok env (length (bulk_calls w1)) ((length (bulkWrite a1) + ?k) div 150)"
    unfolding calls_ok_def
  proof (intro allI impI)
    fix j assume j: "j < (length (bulkWrite a1) + ?k) div 150"
    have "(?b + ?q) div 150 + j < (?b + ?q) div 150 + ((?b + ?q) mod 150 + ?k) div 150"
      using j p1(2) by simp
    then have "(?b + ?q) div 150 + j < (?b + ?q + ?k) div 150"
      by (simp only: div_chunks)
    then have "\<not> bulkWrite_throws env (length (bulk_calls w) + ((?b + ?q) div 150 + j))"
      using all by (simp add: calls_ok_def)
    then show "\<not> bulkWrite_throws env (length (bulk_calls w1) + j)"
      by (simp add: len1 add.assoc)
  qed
  from Cons.IH[OF cv1 lt1 nf1, where c = "c + 1"]
  obtain a w' where s2: "fetch_rows env resume P sess qa rows (c + 1) a1 w1 = Next (c + 1 + length rows) a w'"
    and p2: "written w' = written w1 @ map (response_of env P) (filter (streamed env P sess qa) rows)"
       "length (bulkWrite a) = (length (bulkWrite a1) + ?k) mod 150"
       "map length (bulk_calls w') = map length (bulk_calls w1)
                 @ replicate ((length (bulkWrite a1) + ?k) div 150) 150"
       "iterations w' = iterations w1 + length rows" "queries w' = queries w1"
       "lastUid a = (if rows = [] then lastUid a1
                           else Some (fm_uid (the (converted env P (last rows)))))"
       "rowCount a = rowCount a1 + int (length (filter (streamed env P sess qa) rows))"
       "totalBytes a \<ge> totalBytes a1" "successful a = successful a1"
       "length (entries a1) < 150 \<longrightarrow> entries a = entries a1 \<and> add_calls w' = add_calls w1
                 \<and> fired w' = fired w1 \<and> flog w' = flog w1"
    by blast
  have c1: "fetch_rows env resume P sess qa (r # rows) c acc w = Next (c + length (r # rows)) a w'"
    using s1 s2 by simp
  have c2: "written w' = written w @ map (response_of env P) (filter (streamed env P sess qa) (r # rows))"
    using p1(1) p2(1) by simp
  have c3: "length (bulkWrite a) = (?b + length (filter (queues env P sess qa) (r # rows))) mod 150"
    unfolding kk p2(2) p1(2) using mod_chunks[of "?b + ?q" ?k] by (simp add: add.assoc)
  have c4: "map length (bulk_calls w') = map length (bulk_calls w)
         @ replicate ((?b + length (filter (queues env P sess qa) (r # rows))) div 150) 150"
    unfolding kk p2(3) p1(3) p1(2) using div_chunks[of "?b + ?q" ?k]
    by (simp add: add.assoc replicate_add[symmetric])
  have c5: "iterations w' = iterations w + length (r # rows)" "queries w' = queries w"
    using p1(4,5) p2(4,5) by simp_all
  have c6: "lastUid a = (if r # rows = [] then lastUid acc
                           else Some (fm_uid (the (converted env P (last (r # rows))))))"
    using p1(6) p2(6) m by simp
  have c7: "rowCount a = rowCount acc + int (length (filter (streamed env P sess qa) (r # rows)))"
    using p1(7) p2(7) by simp
  have c8: "totalBytes a \<ge> totalBytes acc" "successful a = successful acc"
    using p1(8,9) p2(8,9) by simp_all
  have c9: "length (entries acc) < 150 \<longrightarrow> entries a = entries acc \<and> add_calls w' = add_calls w
                 \<and> fired w' = fired w \<and> flog w' = flog w"
    using p1(10) p2(10) by simp
  show ?case
    apply (rule exI[of _ a], rule exI[of _ w'])
    apply (intro conjI)
    using c1 c2 c3 c4 c5 c6 c7 c8 c9 by blast+
qed


subsection \<open>Arbitrary runs\<close>

text \<open>
  Relations between the world before and after a stretch of a fetch.
  \<open>grows\<close>: responses were only appended, and in a full-range fetch each of
  them for a uid of the snapshot.  \<open>clean\<close>: bulk calls were only appended and
  none of the new ones threw.  \<open>flush_failed\<close>: the result is the one the
  \<open>catch\<close> of a failed flag-update flush leaves.
\<close>

definition grows :: "fsession \<Rightarrow> bool \<Rightarrow> fworld \<Rightarrow> fworld \<Rightarrow> bool" where
  "grows sess qa w w' =
     (\<exists>ws. written w' = written w @ ws \<and> (qa \<longrightarrow> (\<forall>r\<in>set ws. resp_uid r \<in> set (uidList sess))))"

definition clean :: "fenv \<Rightarrow> fworld \<Rightarrow> fworld \<Rightarrow> bool" where
  "clean env w w' =
     ((\<exists>bs. bulk_calls w' = bulk_calls w @ bs)
      \<and> (\<forall>k. length (bulk_calls w) \<le> k \<and> k < length (bulk_calls w') \<longrightarrow> \<not> bulkWrite_throws env k))"

definition flush_failed :: "fenv \<Rightarrow> fworld \<Rightarrow> (ferror + results) \<Rightarrow> fworld \<Rightarrow> bool" where
  "flush_failed env w out w' =
     ((\<exists>bs. bulk_calls w' = bulk_calls w @ bs)
      \<and> (\<exists>res. out = Inr res \<and> \<not> successful res \<and> bulkWrite res = [] \<and> entries res = []
                \<and> FlushFailed \<in> set (flog w')))"

definition mid :: "fenv \<Rightarrow> fsession \<Rightarrow> bool \<Rightarrow> fworld \<Rightarrow> fworld \<Rightarrow> bool" where
  "mid env sess qa w w' = (grows sess qa w w' \<and> clean env w w')"

definition post :: "fenv \<Rightarrow> fsession \<Rightarrow> bool \<Rightarrow> fworld \<Rightarrow> (ferror + results) \<Rightarrow> fworld \<Rightarrow> bool" where
  "post env sess qa w out w' =
     (grows sess qa w w' \<and> (clean env w w' \<or> flush_failed env w out w'))"

lemma grows_refl: "written w' = written w \<Longrightarrow> grows sess qa w w'"
  by (simp add: grows_def)

lemma grows_trans: "grows sess qa w w1 \<Longrightarrow> grows sess qa w1 w2 \<Longrightarrow> grows sess qa w w2"
proof -
  assume "grows sess qa w w1" "grows sess qa w1 w2"
  then obtain ws1 ws2 where a: "written w1 = written w @ ws1"
      "qa \<longrightarrow> (\<forall>r\<in>set ws1. resp_uid r \<in> set (uidList sess))"
      "written w2 = written w1 @ ws2" "qa \<longrightarrow> (\<forall>r\<in>set ws2. resp_uid r \<in> set (uidList sess))"
    unfolding grows_def by blast
  have "written w2 = written w @ (ws1 @ ws2)" using a(1,3) by simp
  moreover have "qa \<longrightarrow> (\<forall>r\<in>set (ws1 @ ws2). resp_uid r \<in> set (uidList sess))"
    using a(2,4) by auto
  ultimately show ?thesis unfolding grows_def by blast
qed

lemma clean_refl: "bulk_calls w' = bulk_calls w \<Longrightarrow> clean env w w'"
  by (auto simp: clean_def)

lemma clean_trans: "clean env w w1 \<Longrightarrow> clean env w1 w2 \<Longrightarrow> clean env w w2"
proof -
  assume "clean env w w1" "clean env w1 w2"
  then obtain bs1 bs2 where a: "bulk_calls w1 = bulk_calls w @ bs1" "bulk_calls w2 = bulk_calls w1 @ bs2"
    and b: "\<And>k. length (bulk_calls w) \<le> k \<Longrightarrow> k < length (bulk_calls w1) \<Longrightarrow> \<not> bulkWrite_throws env k"
           "\<And>k. length (bulk_calls w1) \<le> k \<Longrightarrow> k < length (bulk_calls w2) \<Longrightarrow> \<not> bulkWrite_throws env k"
    unfolding clean_def by blast
  have "bulk_calls w2 = bulk_calls w @ (bs1 @ bs2)" using a by simp
  moreover have "\<not> bulkWrite_throws env k"
    if "length (bulk_calls w) \<le> k" "k < length (bulk_calls w2)" for k
  proof (cases "k < length (bulk_calls w1)")
    case True then show ?thesis using b(1) that by blast
  next
    case False then show ?thesis using b(2)[of k] that by simp
  qed
  ultimately show ?thesis unfolding clean_def by blast
qed

lemma failed_after_clean:
  "clean env w w1 \<Longrightarrow> flush_failed env w1 out w2 \<Longrightarrow> flush_failed env w out w2"
proof -
  assume "clean env w w1" "flush_failed env w1 out w2"
  then obtain bs1 bs2 where a: "bulk_calls w1 = bulk_calls w @ bs1" "bulk_calls w2 = bulk_calls w1 @ bs2"
    and r: "\<exists>res. out = Inr res \<and> \<not> successful res \<and> bulkWrite res = [] \<and> entries res = []
                \<and> FlushFailed \<in> set (flog w2)"
    unfolding clean_def flush_failed_def by blast
  have "bulk_calls w2 = bulk_calls w @ (bs1 @ bs2)" using a by simp
  then show ?thesis using r unfolding flush_failed_def by blast
qed

lemma mid_refl: "written w' = written w \<Longrightarrow> bulk_calls w' = bulk_calls w \<Longrightarrow> mid env sess qa w w'"
  by (simp add: mid_def grows_refl clean_refl)

lemma mid_trans: "mid env sess qa w w1 \<Longrightarrow> mid env sess qa w1 w2 \<Longrightarrow> mid env sess qa w w2"
  unfolding mid_def using grows_trans clean_trans by blast

lemma mid_post: "mid env sess qa w w1 \<Longrightarrow> post env sess qa w1 out w2 \<Longrightarrow> post env sess qa w out w2"
  unfolding mid_def post_def using grows_trans clean_trans failed_after_clean by blast

lemma mid_imp_post: "mid env sess qa w w' \<Longrightarrow> post env sess qa w out w'"
  by (simp add: mid_def post_def)

lemma post_cong:
  "written w0 = written w \<Longrightarrow> bulk_calls w0 = bulk_calls w \<Longrightarrow> post env sess qa w0 out w'
     \<Longrightarrow> post env sess qa w out w'"
  by (auto simp: post_def grows_def clean_def flush_failed_def)

lemma flush_cases:
  "flush env P acc w = (b, a, w') \<Longrightarrow>
     written w' = written w \<and> bulk_calls w' = bulk_calls w @ [bulkWrite acc]
     \<and> (b \<longrightarrow> \<not> successful a \<and> bulkWrite a = [] \<and> entries a = [] \<and> FlushFailed \<in> set (flog w'))
     \<and> (\<not> b \<longrightarrow> \<not> bulkWrite_throws env (length (bulk_calls w)))"
  by (auto simp: flush_def Let_def fire_def split: if_splits sum.splits)

lemma respond_world:
  "written (snd (respond env m acc w)) = written w @ [\<lparr>resp_uid = fm_uid m, resp_compiled = compiler env m\<rparr>]"
  "bulk_calls (snd (respond env m acc w)) = bulk_calls w"
  by (simp_all add: respond_def Let_def)


lemma clean_one:
  "bulk_calls w' = bulk_calls w @ [b] \<Longrightarrow> \<not> bulkWrite_throws env (length (bulk_calls w))
     \<Longrightarrow> clean env w w'"
proof -
  assume a: "bulk_calls w' = bulk_calls w @ [b]" "\<not> bulkWrite_throws env (length (bulk_calls w))"
  have "\<not> bulkWrite_throws env k" if "length (bulk_calls w) \<le> k" "k < length (bulk_calls w')" for k
  proof -
    have "k = length (bulk_calls w)" using that a(1) by simp
    then show ?thesis using a(2) by simp
  qed
  then show ?thesis using a(1) unfolding clean_def by blast
qed

lemma fetch_row_post:
  assumes res: "\<And>a v out v'. resume a v = Some (out, v') \<Longrightarrow> post env sess qa v out v'"
  shows "case fetch_row env resume P sess qa r c acc w of
           Next c' a' w' \<Rightarrow> mid env sess qa w w'
         | Stop None \<Rightarrow> True
         | Stop (Some (out, w')) \<Rightarrow> post env sess qa w out w'"
proof -
  let ?w = "w\<lparr>iterations := iterations w + 1\<rparr>"
  have mw: "mid env sess qa w ?w" by (simp add: mid_refl)
  show ?thesis
  proof (cases "closeTimeout env (iterations w) \<or> \<not> socketOpen env (iterations w)")
    case True
    then have "fetch_row env resume P sess qa r c acc w = Stop (Some (Inl ServerShutdownError, ?w))
             \<or> fetch_row env resume P sess qa r c acc w = Stop (Some (Inl SocketError, ?w))"
      by (auto simp: fetch_row_def Let_def)
    then show ?thesis using mid_imp_post[OF mw] by auto
  next
    case ab: False
    show ?thesis
    proof (cases "convertResult env (o_projection P) r")
      case None
      let ?w1 = "?w\<lparr>flog := flog ?w @ [MessageNotFetched]\<rparr>"
      have mw1: "mid env sess qa w ?w1" by (simp add: mid_refl)
      show ?thesis
      proof (cases "c = MAX_PAGE_SIZE")
        case True
        then have fr: "fetch_row env resume P sess qa r c acc w = Stop (resume acc ?w1)"
          using ab None by (auto simp: fetch_row_def Let_def)
        show ?thesis
        proof (cases "resume acc ?w1")
          case None
          then show ?thesis using fr by simp
        next
          case (Some x)
          obtain out w' where x: "x = (out, w')" by (cases x)
          have "post env sess qa ?w1 out w'" using res[of acc ?w1 out w'] Some x by simp
          then have "post env sess qa w out w'" using mid_post[OF mw1] by blast
          then show ?thesis using fr Some x by simp
        qed
      next
        case False
        then have "fetch_row env resume P sess qa r c acc w = Stop (Some (Inr acc, ?w1))"
          using ab None by (auto simp: fetch_row_def Let_def)
        then show ?thesis using mid_imp_post[OF mw1] by simp
      qed
    next
      case (Some m)
      let ?acc1 = "acc\<lparr>lastUid := Some (fm_uid m)\<rparr>"
      show ?thesis
      proof (cases "qa \<and> fm_uid m \<notin> set (uidList sess)")
        case True
        then have "fetch_row env resume P sess qa r c acc w = Next (c + 1) ?acc1 ?w"
          using ab Some by (auto simp: fetch_row_def Let_def)
        then show ?thesis using mw by simp
      next
        case ns: False
        let ?mas = "mark_as_seen (o_options P) m"
        let ?m1 = "if ?mas then m\<lparr>fm_flags := Some (Seen # the (fm_flags m))\<rparr> else m"
        let ?acc2 = "fst (respond env ?m1 ?acc1 ?w)"
        let ?w2 = "snd (respond env ?m1 ?acc1 ?w)"
        have uid1: "fm_uid ?m1 = fm_uid m" by simp
        have wr: "written ?w2 = written w @ [\<lparr>resp_uid = fm_uid m, resp_compiled = compiler env ?m1\<rparr>]"
          "bulk_calls ?w2 = bulk_calls w"
          using respond_world[of env ?m1 ?acc1 ?w] uid1 by simp_all
        have "grows sess qa w ?w2"
          unfolding grows_def using wr(1) ns by auto
        then have mw2: "mid env sess qa w ?w2" using wr(2) by (simp add: mid_def clean_refl)
        show ?thesis
        proof (cases "metadataOnly (o_options P) \<and> \<not> ?mas")
          case True
          then have "fetch_row env resume P sess qa r c acc w = Next (c + 1) ?acc2 ?w2"
            using ab Some ns by (auto simp: fetch_row_def Let_def case_prod_beta)
          then show ?thesis using mw2 by simp
        next
          case nm: False
          let ?acc3 = "if \<not> ?mas then ?acc2\<lparr>bulkWrite := bulkWrite ?acc2 @ [update_op P ?m1]\<rparr> else ?acc2"
          show ?thesis
          proof (cases "length (bulkWrite ?acc3) \<ge> MAX_BULK_WRITE_SIZE")
            case False
            then have "fetch_row env resume P sess qa r c acc w = Next (c + 1) ?acc3 ?w2"
              using ab Some ns nm by (auto simp: fetch_row_def Let_def case_prod_beta)
            then show ?thesis using mw2 by simp
          next
            case True
            obtain b a w' where fl: "flush env P ?acc3 ?w2 = (b, a, w')"
              by (cases "flush env P ?acc3 ?w2") auto
            note fc = flush_cases[OF fl]
            have g2: "grows sess qa ?w2 w'" using fc by (simp add: grows_refl)
            show ?thesis
            proof (cases b)
              case bt: True
              then have fr: "fetch_row env resume P sess qa r c acc w = Stop (Some (Inr a, w'))"
                using ab Some ns nm True fl by (auto simp: fetch_row_def Let_def case_prod_beta)
              have "flush_failed env ?w2 (Inr a) w'"
                unfolding flush_failed_def using fc bt by simp
              then have "post env sess qa ?w2 (Inr a) w'" using g2 by (simp add: post_def)
              then have "post env sess qa w (Inr a) w'" using mid_post[OF mw2] by blast
              then show ?thesis using fr by simp
            next
              case bf: False
              then have fr: "fetch_row env resume P sess qa r c acc w = Next (c + 1) a w'"
                using ab Some ns nm True fl by (auto simp: fetch_row_def Let_def case_prod_beta)
              have "clean env ?w2 w'" using clean_one[of w' ?w2 "bulkWrite ?acc3" env] fc bf by simp
              then have "mid env sess qa ?w2 w'" using g2 by (simp add: mid_def)
              then have "mid env sess qa w w'" using mid_trans[OF mw2] by blast
              then show ?thesis using fr by simp
            qed
          qed
        qed
      qed
    qed
  qed
qed

lemma fetch_rows_post:
  assumes res: "\<And>a v out v'. resume a v = Some (out, v') \<Longrightarrow> post env sess qa v out v'"
  shows "case fetch_rows env resume P sess qa rows c acc w of
           Next c' a' w' \<Rightarrow> mid env sess qa w w'
         | Stop None \<Rightarrow> True
         | Stop (Some (out, w')) \<Rightarrow> post env sess qa w out w'"
proof (induction rows arbitrary: c acc w)
  case Nil
  then show ?case by (simp add: mid_refl)
next
  case (Cons r rows)
  note step = fetch_row_post[where resume = resume and env = env and sess = sess and qa = qa
      and P = P and r = r and c = c and acc = acc and w = w, OF res]
  show ?case
  proof (cases "fetch_row env resume P sess qa r c acc w")
    case (Next c1 a1 w1)
    then have m1: "mid env sess qa w w1" using step by simp
    note ih = Cons.IH[where c = c1 and acc = a1 and w = w1]
    show ?thesis
    proof (cases "fetch_rows env resume P sess qa rows c1 a1 w1")
      case n2: (Next c2 a2 w2)
      then have "mid env sess qa w w2" using ih m1 mid_trans by fastforce
      then show ?thesis using Next n2 by simp
    next
      case (Stop x)
      show ?thesis
      proof (cases x)
        case None
        then show ?thesis using Next Stop by simp
      next
        case (Some y)
        obtain out w' where y: "y = (out, w')" by (cases y)
        have "post env sess qa w1 out w'" using ih Stop Some y by simp
        then have "post env sess qa w out w'" using mid_post[OF m1] by blast
        then show ?thesis using Next Stop Some y by simp
      qed
    qed
  next
    case (Stop x)
    then show ?thesis using step by (simp split: option.splits)
  qed
qed

lemma getMessages_post:
  "getMessages n env P sess acc w = Some (out, w') \<Longrightarrow>
     post env sess (length (opt_messages (o_options P)) = length (uidList sess)) w out w'"
proof (induction n arbitrary: acc w out w')
  case 0
  then show ?case by simp
next
  case (Suc n)
  let ?qa = "length (opt_messages (o_options P)) = length (uidList sess)"
  have refl: "post env sess ?qa w (Inl e) w" for e
    by (simp add: mid_imp_post mid_refl)
  show ?case
  proof (cases "o_query P")
    case None
    then show ?thesis using Suc.prems refl by auto
  next
    case (Some query)
    show ?thesis
    proof (cases "q_mailbox query = None \<or> \<not> o_attachmentStorage P \<or> rowCount acc < 0 \<or> totalBytes acc < 0")
      case True
      then have "\<exists>e. out = Inl e \<and> w' = w" using Suc.prems Some by (auto split: if_splits)
      then show ?thesis using refl by auto
    next
      case False
      let ?w1 = "w\<lparr>queries := queries w + 1\<rparr>"
      let ?rows = "page_rows env query (pageQuery_uid env (o_options P) ?qa) (lastUid acc) (queries w)"
      have m1: "mid env sess ?qa w ?w1" by (simp add: mid_refl)
      have eq: "getMessages (Suc n) env P sess acc w =
          (case fetch_rows env (getMessages n env P sess) P sess ?qa ?rows 0 acc ?w1 of
                 Next count acc' w' \<Rightarrow> Some (Inr acc', w')
               | Stop r \<Rightarrow> r)"
        using False Some by (auto simp: Let_def)
      note fp = fetch_rows_post[where resume = "getMessages n env P sess" and env = env and sess = sess
      and qa = ?qa and P = P and rows = ?rows and c = 0 and acc = acc and w = ?w1, OF Suc.IH]
      show ?thesis
      proof (cases "fetch_rows env (getMessages n env P sess) P sess ?qa ?rows 0 acc ?w1")
        case (Next c a v)
        then have "mid env sess ?qa ?w1 v" using fp by simp
        then have "post env sess ?qa w (Inr a) v" using mid_trans[OF m1] mid_imp_post by blast
        then show ?thesis using Suc.prems eq Next by simp
      next
        case (Stop x)
        then have "x = Some (out, w')" using Suc.prems eq by simp
        then have "post env sess ?qa ?w1 out w'" using fp Stop by simp
        then show ?thesis using mid_post[OF m1] by blast
      qed
    qed
  qed
qed








subsection \<open>Two runs from worlds with the same effects\<close>

text \<open>
  Where no row is missing and nothing aborts, a pass reads of the world only
  the effects so far (not the counters of rows and queries, nor the log), and
  neither its own row count nor the function it would resume with.
\<close>

definition same_effects :: "fworld \<Rightarrow> fworld \<Rightarrow> bool" where
  "same_effects w v =
     (written w = written v \<and> bulk_calls w = bulk_calls v \<and> add_calls w = add_calls v
      \<and> fired w = fired v)"

fun rel_step :: "step \<Rightarrow> step \<Rightarrow> bool" where
  "rel_step (Next c a w) (Next d b v) = (a = b \<and> same_effects w v)"
| "rel_step (Stop (Some (Inr a, w))) (Stop (Some (Inr b, v))) = (a = b \<and> same_effects w v)"
| "rel_step _ _ = False"






lemma fetch_rows_append:
  "fetch_rows env resume P sess qa (xs @ ys) c acc w =
     (case fetch_rows env resume P sess qa xs c acc w of
        Next c' a' w' \<Rightarrow> fetch_rows env resume P sess qa ys c' a' w'
      | Stop x \<Rightarrow> Stop x)"
  by (induction xs arbitrary: c acc w) (auto split: step.splits)

subsection \<open>Properties of the fetch\<close>

text \<open>The checks at the head of \<open>getMessages\<close> pass.\<close>

definition valid_call :: "opts \<Rightarrow> fquery \<Rightarrow> results \<Rightarrow> bool" where
  "valid_call P query acc =
     (o_query P = Some query \<and> q_mailbox query \<noteq> None \<and> o_attachmentStorage P
      \<and> 0 \<le> rowCount acc \<and> 0 \<le> totalBytes acc)"

lemma getMessages_unfold:
  assumes "valid_call P query acc"
  shows "getMessages (Suc n) env P sess acc w =
     (case fetch_rows env (getMessages n env P sess) P sess
             (length (opt_messages (o_options P)) = length (uidList sess))
             (page_rows env query
                (pageQuery_uid env (o_options P) (length (opt_messages (o_options P)) = length (uidList sess)))
                (lastUid acc) (queries w))
             0 acc (w\<lparr>queries := queries w + 1\<rparr>) of
        Next count acc' w' \<Rightarrow> Some (Inr acc', w')
      | Stop r \<Rightarrow> r)"
  using assms by (auto simp: valid_call_def Let_def)




lemma valid_fetch_opts:
  "attachmentStorage env \<Longrightarrow>
     valid_call (fetch_opts env options mailbox) (fetch_query options mailbox) initial_results"
  by (simp add: valid_call_def fetch_opts_def fetch_query_def initial_results_def)

lemma onFetch_found:
  assumes "\<not> refreshSession_throws env" "findMailbox env mailboxId = Some mailbox"
  shows "onFetch n env mailboxId options sess w =
           (case getMessages n env (fetch_opts env options mailbox) sess initial_results w of
              None \<Rightarrow> None
            | Some (Inl err, w1) \<Rightarrow> Some (FnError err, w1)
            | Some (Inr res, w1) \<Rightarrow> Some (finish_fetch env res w1))"
  using assms by (simp add: onFetch_def)



lemma finish_fetch_nothing:
  "bulkWrite res = [] \<Longrightarrow> entries res = [] \<Longrightarrow>
     finish_fetch env res w = (FnDone (successful res) (rowCount res) (totalBytes res), w)"
  by (simp add: finish_fetch_def Let_def)


text \<open>
  The flush inside the loop (\<open>getMessages\<close>, the \<open>try\<close> around
  \<open>Messages.bulkWrite\<close>).  If a call of \<open>Messages.bulkWrite\<close> made by
  \<open>getMessages\<close> throws, the failure is logged, the result has both batches
  empty and \<open>successful = false\<close>, the responses written before are still
  there, and \<open>onFetch\<close> reports \<open>fn(null, false, ...)\<close> without flushing
  anything more.
\<close>

lemma loop_flush_failure_reported:
  "(getMessages n env P sess acc w = Some (out, w')
      \<and> (\<exists>k. length (bulk_calls w) \<le> k \<and> k < length (bulk_calls w') \<and> bulkWrite_throws env k)
    \<longrightarrow> (\<exists>res. out = Inr res \<and> \<not> successful res \<and> bulkWrite res = [] \<and> entries res = []
              \<and> FlushFailed \<in> set (flog w'))
        \<and> (\<exists>ws. written w' = written w @ ws))
   \<and> (\<not> refreshSession_throws env \<and> findMailbox env mailboxId = Some mailbox
      \<and> getMessages n env (fetch_opts env options mailbox) sess initial_results w = Some (out, w')
      \<and> (\<exists>k. length (bulk_calls w) \<le> k \<and> k < length (bulk_calls w') \<and> bulkWrite_throws env k)
    \<longrightarrow> (\<exists>rc tb. onFetch n env mailboxId options sess w = Some (FnDone False rc tb, w')))"
proof -
  have A: "(\<exists>res. out = Inr res \<and> \<not> successful res \<and> bulkWrite res = [] \<and> entries res = []
              \<and> FlushFailed \<in> set (flog w'))
        \<and> (\<exists>ws. written w' = written w @ ws)"
    if g: "getMessages n env P sess acc w = Some (out, w')"
    and k: "\<exists>k. length (bulk_calls w) \<le> k \<and> k < length (bulk_calls w') \<and> bulkWrite_throws env k"
    for P acc
  proof -
    let ?qa = "length (opt_messages (o_options P)) = length (uidList sess)"
    from getMessages_post[OF g]
    have gr: "grows sess ?qa w w'" and cf: "clean env w w' \<or> flush_failed env w out w'"
      by (simp_all add: post_def)
    have "\<not> clean env w w'" using k unfolding clean_def by blast
    then have "flush_failed env w out w'" using cf by blast
    then show ?thesis using gr unfolding flush_failed_def grows_def by blast
  qed
  have B: "\<exists>rc tb. onFetch n env mailboxId options sess w = Some (FnDone False rc tb, w')"
    if rf: "\<not> refreshSession_throws env" and fm: "findMailbox env mailboxId = Some mailbox"
    and g: "getMessages n env (fetch_opts env options mailbox) sess initial_results w = Some (out, w')"
    and k: "\<exists>k. length (bulk_calls w) \<le> k \<and> k < length (bulk_calls w') \<and> bulkWrite_throws env k"
  proof -
    from A[OF g k] obtain res where r: "out = Inr res" "\<not> successful res" "bulkWrite res = []"
      "entries res = []" by blast
    have "onFetch n env mailboxId options sess w = Some (finish_fetch env res w')"
      using onFetch_found[OF rf fm] g r(1) by simp
    then show ?thesis using finish_fetch_nothing[OF r(3,4), of env w'] r(2) by simp
  qed
  show ?thesis using A[of P acc] B by blast
qed










lemma same_effects_refl: "same_effects w w"
  by (simp add: same_effects_def)

lemma rel_step_Next:
  "rel_step (Next c a w) (Next d b v) \<Longrightarrow> a = b \<and> same_effects w v"
  by simp


subsection \<open>A concrete store\<close>

text \<open>
  Rows with \<open>uid = id\<close> in mailbox 1, a converter that fails on one chosen
  uid, and an environment built from the tables, the failing uid, the state of
  the socket by row and the outcome of \<open>bulkWrite\<close> by call.
\<close>

definition ex_row :: "nat \<Rightarrow> row" where
  "ex_row u = \<lparr>r_id = u, r_uid = u, r_mailbox = 1, r_modseq = 0, r_flags = []\<rparr>"

definition ex_convert :: "nat \<Rightarrow> projection \<Rightarrow> row \<Rightarrow> fmessage option" where
  "ex_convert missing pr r =
     (if r_uid r = missing then None
      else Some \<lparr>fm_id = r_id r, fm_uid = r_uid r,
                 fm_flags = (if p_flags pr then Some (r_flags r) else None)\<rparr>)"

definition ex_mailbox :: mailbox where
  "ex_mailbox = \<lparr>mb_id = 1, modifyIndex = 5\<rparr>"

definition ex_env :: "(nat \<Rightarrow> row list) \<Rightarrow> nat \<Rightarrow> (nat \<Rightarrow> bool) \<Rightarrow> (nat \<Rightarrow> bool) \<Rightarrow> fenv" where
  "ex_env tables missing sock throws =
     \<lparr>dbAll = tables, convertResult = ex_convert missing,
      checkRangeQuery = (\<lambda>ms. if ms = [] then None else Some (\<lambda>u. u \<in> set ms)),
      closeTimeout = (\<lambda>_. False), socketOpen = sock,
      bulkWrite_throws = throws, addEntries_throws = (\<lambda>_. False),
      compiler = (\<lambda>m. ''* FETCH''), refreshSession_throws = False, session_alias = Some ''alias'',
      findMailbox = (\<lambda>i. if i = 1 then Some ex_mailbox else None),
      attachmentStorage = True\<rparr>"

definition ex_options :: "nat list \<Rightarrow> options" where
  "ex_options ms =
     \<lparr>opt_messages = ms, markAsSeen = False, metadataOnly = False, changedSince = None,
      flagsExist = True, idateExist = False, bodystructureExist = False, rfc822sizeExist = False,
      envelopeExist = False\<rparr>"

definition ex_world :: fworld where
  "ex_world = \<lparr>written = [], bulk_calls = [], add_calls = [], fired = [], flog = [],
               iterations = 0, queries = 0\<rparr>"

lemmas ex_defs = ex_row_def ex_convert_def ex_mailbox_def ex_env_def ex_options_def ex_world_def
  onFetch_def fetch_opts_def fetch_query_def
      initial_results_def make_projection_def truthy_def Let_def page_rows_def condition_def
      uid_condition_def pageQuery_uid_def fetch_row_def respond_def mark_as_seen_def
      update_op_def MAX_BULK_WRITE_SIZE_def MAX_PAGE_SIZE_def finish_fetch_def upt_rec flush_def
      fire_def truthy_s_def


lemma ex_no_abort: "no_abort (ex_env t m (\<lambda>_. True) th)"
  by (simp add: no_abort_def ex_env_def)


lemma ex_converted:
  "u \<noteq> m \<Longrightarrow> converted (ex_env t m s th) (fetch_opts E (ex_options ms) mb) (ex_row u)
     = Some \<lparr>fm_id = u, fm_uid = u, fm_flags = Some []\<rparr>"
  by (simp add: converted_def ex_env_def ex_convert_def ex_row_def fetch_opts_def make_projection_def
      ex_options_def)

lemma fetch_opts_options: "o_options (fetch_opts E opt mb) = opt"
  by (simp add: fetch_opts_def)

lemma ex_queues:
  assumes "u \<noteq> m" "qa \<longrightarrow> u \<in> set ul"
  shows "queues (ex_env t m s th) (fetch_opts E (ex_options ms) mb) \<lparr>uidList = ul\<rparr> qa (ex_row u)"
proof -
  note c = ex_converted[OF assms(1), of t s th E ms mb]
  have o: "\<not> markAsSeen (ex_options ms)" "\<not> metadataOnly (ex_options ms)"
    by (simp_all add: ex_options_def)
  show ?thesis
    unfolding queues_def streamed_def c fetch_opts_options mark_as_seen_def
    using assms(2) o by simp
qed

lemma ex_page_rows:
  assumes "t q = map ex_row [a..<b]"
  shows "page_rows (ex_env t m s th) (fetch_query (ex_options ms) ex_mailbox) Unset None q
           = map ex_row [a..<b]"
proof -
  have c: "\<forall>r\<in>set (map ex_row [a..<b]).
             condition (fetch_query (ex_options ms) ex_mailbox) Unset None r"
    by (simp add: condition_def fetch_query_def ex_options_def ex_mailbox_def truthy_def
        uid_condition_def ex_row_def)
  have "map r_uid (map ex_row [a..<b]) = [a..<b]"
    by (simp add: ex_row_def comp_def)
  then have s: "sorted (map r_uid (map ex_row [a..<b]))" by simp
  have "dbAll (ex_env t m s th) q = map ex_row [a..<b]" using assms by (simp add: ex_env_def)
  then show ?thesis
    unfolding page_rows_def using c s by (simp add: sort_key_id_if_sorted del: map_map)
qed

lemma ex_full_range: "pageQuery_uid env (ex_options ms) True = Unset"
  by (simp add: pageQuery_uid_def)


subsection \<open>Concrete fetches\<close>

text \<open>A pass whose first flush, at its 150th queued update, throws.\<close>

lemma fetch_row_flush_fails:
  assumes na: "no_abort env"
    and cv: "converted env P r = Some m"
    and q: "queues env P sess qa r"
    and len: "length (bulkWrite acc) = 149"
    and th: "bulkWrite_throws env (length (bulk_calls w))"
  shows "\<exists>a w'. fetch_row env resume P sess qa r c acc w = Stop (Some (Inr a, w'))
           \<and> length (bulk_calls w') = length (bulk_calls w) + 1"
proof -
  have ab: "\<not> closeTimeout env (iterations w)" "socketOpen env (iterations w)"
    using na by (simp_all add: no_abort_def)
  have cv': "convertResult env (o_projection P) r = Some m" using cv by (simp add: converted_def)
  have ns: "\<not> (qa \<and> fm_uid m \<notin> set (uidList sess))" and nmas: "\<not> mark_as_seen (o_options P) m"
    and nm: "\<not> metadataOnly (o_options P)"
    using q cv by (simp_all add: queues_def streamed_def)
  let ?w = "w\<lparr>iterations := iterations w + 1\<rparr>"
  let ?acc1 = "acc\<lparr>lastUid := Some (fm_uid m)\<rparr>"
  let ?acc2 = "fst (respond env m ?acc1 ?w)"
  let ?w2 = "snd (respond env m ?acc1 ?w)"
  let ?acc3 = "?acc2\<lparr>bulkWrite := bulkWrite ?acc2 @ [update_op P m]\<rparr>"
  have b2: "bulkWrite ?acc2 = bulkWrite acc" "bulk_calls ?w2 = bulk_calls w"
    by (simp_all add: respond_def Let_def)
  obtain b a w' where fl: "flush env P ?acc3 ?w2 = (b, a, w')"
    by (cases "flush env P ?acc3 ?w2") auto
  note fc = flush_cases[OF fl]
  have bt: "b" using fc th b2(2) by auto
  have "fetch_row env resume P sess qa r c acc w = Stop (Some (Inr a, w'))"
    using ab cv' ns nmas nm len b2(1) fl bt
    by (auto simp: fetch_row_def Let_def case_prod_beta MAX_BULK_WRITE_SIZE_def)
  moreover have "length (bulk_calls w') = length (bulk_calls w) + 1"
    using fc b2(2) by simp
  ultimately show ?thesis by blast
qed

lemma getMessages_flush_fails:
  assumes na: "no_abort env"
    and vc: "valid_call P query acc"
    and qa: "qa = (length (opt_messages (o_options P)) = length (uidList sess))"
    and rows: "page_rows env query (pageQuery_uid env (o_options P) qa) (lastUid acc) (queries w)
                 = pre @ [r]"
    and cv: "\<forall>x\<in>set (pre @ [r]). converted env P x \<noteq> None"
    and allq: "\<forall>x\<in>set (pre @ [r]). queues env P sess qa x"
    and len: "length (bulkWrite acc) + length pre = 149"
    and th: "bulkWrite_throws env (length (bulk_calls w))"
  shows "\<exists>out w'. getMessages (Suc n) env P sess acc w = Some (out, w')
           \<and> length (bulk_calls w') = length (bulk_calls w) + 1"
proof -
  let ?w1 = "w\<lparr>queries := queries w + 1\<rparr>"
  let ?res = "getMessages n env P sess"
  have fq: "filter (queues env P sess qa) pre = pre" using allq by simp
  have cvp: "\<forall>x\<in>set pre. converted env P x \<noteq> None" using cv by simp
  have lt: "length (bulkWrite acc) < 150" using len by simp
  have z: "(length (bulkWrite acc) + length (filter (queues env P sess qa) pre)) div 150 = 0"
    using len by (simp add: fq)
  have nf: "calls_ok env (length (bulk_calls ?w1))
              ((length (bulkWrite acc) + length (filter (queues env P sess qa) pre)) div 150)"
    unfolding z by (simp add: calls_ok_def)
  from fetch_rows_ok[OF na cvp lt nf, where resume = ?res and c = 0]
  obtain a1 w1 where f1: "fetch_rows env ?res P sess qa pre 0 acc ?w1 = Next (0 + length pre) a1 w1"
    and p: "length (bulkWrite a1)
               = (length (bulkWrite acc) + length (filter (queues env P sess qa) pre)) mod 150"
       "map length (bulk_calls w1) = map length (bulk_calls ?w1)
          @ replicate ((length (bulkWrite acc) + length (filter (queues env P sess qa) pre)) div 150) 150"
    by blast
  have l1: "length (bulkWrite a1) = 149" using p(1) len by (simp add: fq)
  have "length (map length (bulk_calls w1)) = length (map length (bulk_calls ?w1))"
    using p(2) unfolding z by simp
  then have c1: "length (bulk_calls w1) = length (bulk_calls w)" by simp
  obtain m where m: "converted env P r = Some m" using cv by auto
  have qr: "queues env P sess qa r" using allq by simp
  have th1: "bulkWrite_throws env (length (bulk_calls w1))" using th c1 by simp
  from fetch_row_flush_fails[OF na m qr l1 th1, where resume = ?res and c = "0 + length pre"]
  obtain a w' where f2: "fetch_row env ?res P sess qa r (0 + length pre) a1 w1 = Stop (Some (Inr a, w'))"
    and c2: "length (bulk_calls w') = length (bulk_calls w1) + 1" by blast
  have "fetch_rows env ?res P sess qa (pre @ [r]) 0 acc ?w1 = Stop (Some (Inr a, w'))"
    by (simp only: fetch_rows_append f1 step.case fetch_rows.simps f2)
  then have "getMessages (Suc n) env P sess acc w = Some (Inr a, w')"
    unfolding getMessages_unfold[OF vc] using rows qa by simp
  then show ?thesis using c2 c1 by simp
qed

lemma ex_rows_all:
  assumes "m \<notin> set us" "qa \<longrightarrow> set us \<subseteq> set ul"
  shows "\<forall>x\<in>set (map ex_row us).
           converted (ex_env t m s th) (fetch_opts E (ex_options ms) mb) x \<noteq> None"
    and "\<forall>x\<in>set (map ex_row us).
           queues (ex_env t m s th) (fetch_opts E (ex_options ms) mb) \<lparr>uidList = ul\<rparr> qa x"
proof -
  show "\<forall>x\<in>set (map ex_row us).
           converted (ex_env t m s th) (fetch_opts E (ex_options ms) mb) x \<noteq> None"
  proof
    fix x assume "x \<in> set (map ex_row us)"
    then obtain u where u: "x = ex_row u" "u \<in> set us" by auto
    then have "u \<noteq> m" using assms by auto
    then show "converted (ex_env t m s th) (fetch_opts E (ex_options ms) mb) x \<noteq> None"
      unfolding u(1) by (simp add: ex_converted)
  qed
  show "\<forall>x\<in>set (map ex_row us).
           queues (ex_env t m s th) (fetch_opts E (ex_options ms) mb) \<lparr>uidList = ul\<rparr> qa x"
  proof
    fix x assume "x \<in> set (map ex_row us)"
    then obtain u where u: "x = ex_row u" "u \<in> set us" by auto
    then have "u \<noteq> m" "qa \<longrightarrow> u \<in> set ul" using assms by auto
    then show "queues (ex_env t m s th) (fetch_opts E (ex_options ms) mb) \<lparr>uidList = ul\<rparr> qa x"
      unfolding u(1) by (rule ex_queues)
  qed
qed




text \<open>
  The flush inside the loop on a fetch of 150 eligible rows whose flush, at
  the 150th row, throws: the callback gets \<open>successful = false\<close>.
\<close>

lemma loop_flush_failure_example:
  "\<exists>rc tb v. onFetch 1 (ex_env (\<lambda>_. map ex_row [1..<151]) 0 (\<lambda>_. True) (\<lambda>n. n = 0)) 1
                  (ex_options [1..<151]) \<lparr>uidList = [1..<151]\<rparr> ex_world
                = Some (FnDone False rc tb, v)"
proof -
  let ?E = "ex_env (\<lambda>_. map ex_row [1..<151]) 0 (\<lambda>_. True) (\<lambda>n. n = 0)"
  let ?O = "ex_options [1..<151]"
  let ?S = "\<lparr>uidList = [1..<151]\<rparr>"
  let ?P = "fetch_opts ?E ?O ex_mailbox"
  let ?Q = "fetch_query ?O ex_mailbox"
  have e: "\<not> refreshSession_throws ?E" "findMailbox ?E 1 = Some ex_mailbox" "attachmentStorage ?E"
    by (simp_all add: ex_env_def)
  have vc: "valid_call ?P ?Q initial_results" using e(3) by (rule valid_fetch_opts)
  have qa: "True = (length (opt_messages (o_options ?P)) = length (uidList ?S))"
    by (simp add: fetch_opts_options ex_options_def)
  have split: "[1..<151] = [1..<150] @ [150::nat]"
    using upt_Suc_append[of 1 150] by simp
  have rows: "page_rows ?E ?Q (pageQuery_uid ?E (o_options ?P) True) (lastUid initial_results)
                (queries ex_world) = map ex_row [1..<150] @ [ex_row 150]"
  proof -
    have r0: "page_rows ?E ?Q Unset None 0 = map ex_row [1..<151]"
      by (rule ex_page_rows) simp
    have l: "lastUid initial_results = None" "queries ex_world = 0"
      by (simp_all add: initial_results_def ex_world_def)
    have e2: "map ex_row [1..<151] = map ex_row [1..<150] @ [ex_row 150]"
      by (simp only: split map_append list.map)
    show ?thesis
      unfolding fetch_opts_options ex_full_range l r0 by (rule e2)
  qed
  have m0: "0 \<notin> set ([1..<150] @ [150::nat])"
    "True \<longrightarrow> set ([1..<150] @ [150::nat]) \<subseteq> set [1..<151]" by auto
  note all = ex_rows_all[OF m0, where t = "\<lambda>_. map ex_row [1..<151]" and s = "\<lambda>_. True"
      and th = "\<lambda>n. n = 0" and E = ?E and ms = "[1..<151]" and mb = ex_mailbox,
      unfolded map_append list.map]
  have len: "length (bulkWrite initial_results) + length (map ex_row [1..<150]) = 149"
    by (simp add: initial_results_def)
  have th: "bulkWrite_throws ?E (length (bulk_calls ex_world))"
    by (simp add: ex_env_def ex_world_def)
  from getMessages_flush_fails[OF ex_no_abort vc qa rows all len th, of 0]
  obtain out w' where g: "getMessages 1 ?E ?P ?S initial_results ex_world = Some (out, w')"
    and c: "length (bulk_calls w') = length (bulk_calls ex_world) + 1" by auto
  have k: "\<exists>k. length (bulk_calls ex_world) \<le> k \<and> k < length (bulk_calls w') \<and> bulkWrite_throws ?E k"
    by (rule exI[of _ 0]) (simp add: c ex_world_def ex_env_def)
  note T = loop_flush_failure_reported[where env = ?E and mailboxId = 1 and mailbox = ex_mailbox
      and options = ?O and sess = ?S and w = ex_world and n = 1 and out = out and w' = w']
  from T[THEN conjunct2, THEN mp, OF conjI[OF e(1) conjI[OF e(2) conjI[OF g k]]]]
  show ?thesis by blast
qed

text \<open>
  Claim C5, where the code departs from it.  A fetch of one message whose
  flag update is queued: the only flush is the \<open>Messages.bulkWrite\<close> that
  \<open>onFetch\<close> makes after \<open>getMessages\<close> has returned, which no \<open>try\<close> of its
  own surrounds.  When it succeeds the callback gets \<open>fn(null, true, ...)\<close>;
  when it throws, the response has been written already and the callback gets
  the error: nothing is logged by the fetch and \<open>successful = false\<close> is never
  reported.
\<close>

theorem final_flush_failure_propagates:
  "onFetch 1 (ex_env (\<lambda>_. map ex_row [1..<2]) 0 (\<lambda>_. True) (\<lambda>_. False)) 1 (ex_options [1])
       \<lparr>uidList = [1]\<rparr> ex_world
     = Some (FnDone True 1 7,
             \<lparr>written = [\<lparr>resp_uid = 1, resp_compiled = ''* FETCH''\<rparr>],
              bulk_calls = [[\<lparr>op_id = 1, op_mailbox = 1, op_uid = 1\<rparr>]],
              add_calls = [], fired = [], flog = [], iterations = 1, queries = 1\<rparr>)
   \<and> onFetch 1 (ex_env (\<lambda>_. map ex_row [1..<2]) 0 (\<lambda>_. True) (\<lambda>_. True)) 1 (ex_options [1])
       \<lparr>uidList = [1]\<rparr> ex_world
     = Some (FnError BulkWriteError,
             \<lparr>written = [\<lparr>resp_uid = 1, resp_compiled = ''* FETCH''\<rparr>],
              bulk_calls = [[\<lparr>op_id = 1, op_mailbox = 1, op_uid = 1\<rparr>]],
              add_calls = [], fired = [], flog = [], iterations = 1, queries = 1\<rparr>)"
  by (simp add: ex_defs)






end
